theory Spec2Isabelle
  imports Main "HOL-Library.Word"
begin

unbundle bit_operations_syntax

section \<open>Python values handled by \<open>metrics/resources/plugins.py\<close>\<close>

text \<open>
  A naive \<open>datetime.datetime\<close> (no \<open>tzinfo\<close>, as the object-document mapper
  hands timestamps out and as \<open>EPOCH\<close> itself is), a \<open>datetime.timedelta\<close> in
  its normalised form, and a finite binary64 \<open>float\<close> written as sign, integer
  mantissa and binary exponent (value \<open>\<plusminus> mantissa * 2 ^ exponent\<close>).
\<close>

record datetime =
  year :: int
  month :: int
  day :: int
  hour :: int
  minute :: int
  second :: int
  microsecond :: int

record timedelta =
  days :: int
  seconds :: int
  microseconds :: int

record pyfloat =
  negative :: bool
  mantissa :: int
  exponent :: int

text \<open>
  The values \<open>_cleanup\<close> can meet: \<open>None\<close>, \<open>bool\<close>, \<open>int\<close>, \<open>float\<close>,
  \<open>str\<close>, \<open>bytes\<close>, \<open>list\<close>, \<open>tuple\<close>, \<open>set\<close> (its elements in iteration
  order), \<open>dict\<close> (its items in iteration order; the keys of a document are
  strings and pairwise distinct), \<open>uuid.UUID\<close> (its 128-bit \<open>int\<close>) and
  \<open>datetime.datetime\<close>.
\<close>

datatype pyval =
    PNone
  | PBool bool
  | PInt int
  | PFloat pyfloat
  | PStr string
  | PBytes "8 word list"
  | PList "pyval list"
  | PTuple "pyval list"
  | PSet "pyval list"
  | PDict "(string \<times> pyval) list"
  | PUUID "128 word"
  | PDatetime datetime

text \<open>\<open>isinstance(obj, Iterable)\<close> and \<open>sum(1 for e in obj)\<close>.\<close>

fun isinstance_Iterable :: "pyval \<Rightarrow> bool" where
  "isinstance_Iterable (PStr s) = True"
| "isinstance_Iterable (PBytes b) = True"
| "isinstance_Iterable (PList xs) = True"
| "isinstance_Iterable (PTuple xs) = True"
| "isinstance_Iterable (PSet xs) = True"
| "isinstance_Iterable (PDict items) = True"
| "isinstance_Iterable v = False"

fun iter_count :: "pyval \<Rightarrow> nat" where
  "iter_count (PStr s) = length s"
| "iter_count (PBytes b) = length b"
| "iter_count (PList xs) = length xs"
| "iter_count (PTuple xs) = length xs"
| "iter_count (PSet xs) = length xs"
| "iter_count (PDict items) = length items"
| "iter_count v = 0"

text \<open>
  \<open>d[key] = val\<close> on a dict kept as its item list: an existing key keeps its
  place and gets the new value, a new key goes to the end.
\<close>

fun dict_setitem :: "'k \<Rightarrow> 'v \<Rightarrow> ('k \<times> 'v) list \<Rightarrow> ('k \<times> 'v) list" where
  "dict_setitem k v [] = [(k, v)]"
| "dict_setitem k v ((k', v') # d) =
     (if k' = k then (k', v) # d else (k', v') # dict_setitem k v d)"

text \<open>\<open>s.startswith(p)\<close> and \<open>sub in s\<close> on strings.\<close>

definition startswith :: "string \<Rightarrow> string \<Rightarrow> bool" where
  "startswith s p = (take (length p) s = p)"

fun contains :: "string \<Rightarrow> string \<Rightarrow> bool" where
  "contains [] sub = (sub = [])"
| "contains (c # cs) sub = (startswith (c # cs) sub \<or> contains cs sub)"

subsection \<open>\<open>str(uuid)\<close>\<close>

text \<open>
  \<open>UUID.__str__\<close>: \<open>hex = '%032x' % self.int\<close>, then the five groups
  \<open>hex[:8]\<close>, \<open>hex[8:12]\<close>, \<open>hex[12:16]\<close>, \<open>hex[16:20]\<close>, \<open>hex[20:]\<close> joined
  by hyphens.
\<close>

definition hexdigit :: "nat \<Rightarrow> char" where
  "hexdigit n = ''0123456789abcdef'' ! (n mod 16)"

definition hex32 :: "128 word \<Rightarrow> string" where
  "hex32 u = map (\<lambda>i. hexdigit (unat (drop_bit (4 * (31 - i)) u AND 15))) [0..<32]"

definition uuid_str :: "128 word \<Rightarrow> string" where
  "uuid_str u =
     (let hex = hex32 u
      in take 8 hex @ ''-'' @ take 4 (drop 8 hex) @ ''-'' @ take 4 (drop 12 hex) @ ''-'' @
         take 4 (drop 16 hex) @ ''-'' @ drop 20 hex)"

subsection \<open>\<open>int((obj - EPOCH).total_seconds())\<close>\<close>

text \<open>
  The proleptic Gregorian ordinal of a date, as \<open>datetime.toordinal\<close> computes it
  (\<open>_is_leap\<close>, \<open>_days_before_year\<close>, \<open>_days_before_month\<close>, \<open>_ymd2ord\<close>).
\<close>

definition is_leap :: "int \<Rightarrow> bool" where
  "is_leap y = (y mod 4 = 0 \<and> (y mod 100 \<noteq> 0 \<or> y mod 400 = 0))"

definition days_before_year :: "int \<Rightarrow> int" where
  "days_before_year y = (let p = y - 1 in p * 365 + p div 4 - p div 100 + p div 400)"

definition DAYS_BEFORE_MONTH :: "int list" where
  "DAYS_BEFORE_MONTH = [-1, 0, 31, 59, 90, 120, 151, 181, 212, 243, 273, 304, 334]"

definition days_before_month :: "int \<Rightarrow> int \<Rightarrow> int" where
  "days_before_month y m =
     DAYS_BEFORE_MONTH ! nat m + (if m > 2 \<and> is_leap y then 1 else 0)"

definition DAYS_IN_MONTH :: "int list" where
  "DAYS_IN_MONTH = [-1, 31, 28, 31, 30, 31, 30, 31, 31, 30, 31, 30, 31]"

definition days_in_month :: "int \<Rightarrow> int \<Rightarrow> int" where
  "days_in_month y m = (if m = 2 \<and> is_leap y then 29 else DAYS_IN_MONTH ! nat m)"

definition ymd2ord :: "int \<Rightarrow> int \<Rightarrow> int \<Rightarrow> int" where
  "ymd2ord y m d = days_before_year y + days_before_month y m + d"

definition toordinal :: "datetime \<Rightarrow> int" where
  "toordinal t = ymd2ord (year t) (month t) (day t)"

text \<open>The field ranges the \<open>datetime\<close> constructor enforces.\<close>

definition valid_datetime :: "datetime \<Rightarrow> bool" where
  "valid_datetime t =
     (1 \<le> year t \<and> year t \<le> 9999 \<and> 1 \<le> month t \<and> month t \<le> 12 \<and>
      1 \<le> day t \<and> day t \<le> days_in_month (year t) (month t) \<and>
      0 \<le> hour t \<and> hour t \<le> 23 \<and> 0 \<le> minute t \<and> minute t \<le> 59 \<and>
      0 \<le> second t \<and> second t \<le> 59 \<and> 0 \<le> microsecond t \<and> microsecond t \<le> 999999)"

text \<open>
  \<open>timedelta(days, seconds, microseconds)\<close> on integers: microseconds carry into
  seconds and seconds into days by \<open>divmod\<close>.
\<close>

definition new_timedelta :: "int \<Rightarrow> int \<Rightarrow> int \<Rightarrow> timedelta" where
  "new_timedelta d s us =
     (let s = s + us div 1000000;
          us = us mod 1000000;
          d = d + s div 86400;
          s = s mod 86400
      in \<lparr>days = d, seconds = s, microseconds = us\<rparr>)"

text \<open>\<open>datetime.__sub__\<close> for two naive datetimes.\<close>

definition datetime_sub :: "datetime \<Rightarrow> datetime \<Rightarrow> timedelta" where
  "datetime_sub a b =
     (let days1 = toordinal a;
          days2 = toordinal b;
          secs1 = second a + minute a * 60 + hour a * 3600;
          secs2 = second b + minute b * 60 + hour b * 3600
      in new_timedelta (days1 - days2) (secs1 - secs2) (microsecond a - microsecond b))"

text \<open>\<open>EPOCH = datetime.datetime.utcfromtimestamp(0)\<close>: midnight, 1 January 1970.\<close>

definition EPOCH :: datetime where
  "EPOCH = \<lparr>year = 1970, month = 1, day = 1, hour = 0, minute = 0, second = 0,
            microsecond = 0\<rparr>"

text \<open>
  True division of two integers, \<open>a / b\<close> with \<open>b > 0\<close>: the binary64 value nearest
  to the quotient, ties to the even mantissa. The mantissa of a non-zero result has
  53 bits (or is \<open>2 ^ 53\<close> after a carry). Quotients here lie far inside the normal
  range, so neither overflow nor subnormal results arise.
\<close>

function bit_length :: "int \<Rightarrow> nat" where
  "bit_length n = (if n \<le> 0 then 0 else Suc (bit_length (n div 2)))"
  by pat_completeness auto
termination
  by (relation "measure nat") auto

declare bit_length.simps [simp del]

definition float_exponent :: "int \<Rightarrow> int \<Rightarrow> int" where
  "float_exponent n d =
     (let e0 = int (bit_length n) - int (bit_length d)
      in if (if 0 \<le> e0 then d * 2 ^ nat e0 \<le> n else d \<le> n * 2 ^ nat (- e0))
         then e0 else e0 - 1)"

definition round_half_even :: "int \<Rightarrow> int \<Rightarrow> int" where
  "round_half_even num den =
     (let q = num div den; r = num mod den
      in if 2 * r < den then q
         else if den < 2 * r then q + 1
         else if even q then q else q + 1)"

definition int_truediv :: "int \<Rightarrow> int \<Rightarrow> pyfloat" where
  "int_truediv a b =
     (if a = 0 then \<lparr>negative = False, mantissa = 0, exponent = 0\<rparr>
      else
        let n = \<bar>a\<bar>;
            d = b;
            s = 52 - float_exponent n d;
            m = (if 0 \<le> s then round_half_even (n * 2 ^ nat s) d
                 else round_half_even n (d * 2 ^ nat (- s)))
        in \<lparr>negative = (a < 0), mantissa = m, exponent = - s\<rparr>)"

text \<open>\<open>int(x)\<close> for a float: the integer part, towards zero.\<close>

definition float_to_int :: "pyfloat \<Rightarrow> int" where
  "float_to_int x =
     (let v = (if 0 \<le> exponent x then mantissa x * 2 ^ nat (exponent x)
               else mantissa x div 2 ^ nat (- exponent x))
      in if negative x then - v else v)"

text \<open>
  \<open>timedelta.total_seconds\<close>:
  \<open>((days * 86400 + seconds) * 10**6 + microseconds) / 10**6\<close>.
\<close>

definition total_microseconds :: "timedelta \<Rightarrow> int" where
  "total_microseconds td = (days td * 86400 + seconds td) * 1000000 + microseconds td"

definition total_seconds :: "timedelta \<Rightarrow> pyfloat" where
  "total_seconds td = int_truediv (total_microseconds td) 1000000"

section \<open>The document normalizer \<open>_cleanup\<close>\<close>

text \<open>
  Lines 18 to 42 of the source. The mapping branch is the source's loop over
  \<open>obj.items()\<close>, building \<open>plugin_dict\<close> from the empty dict.
\<close>

definition rename_key :: "string \<Rightarrow> string" where
  "rename_key key =
     (let key = (if key = ''_cls'' then ''type'' else key)
      in if startswith key ''_'' then drop 1 key else key)"

fun cleanup :: "pyval \<Rightarrow> pyval" where
  "cleanup obj =
     (if isinstance_Iterable obj \<and> iter_count obj = 0 then PNone
      else case obj of
        PDict items \<Rightarrow>
          PDict (fold (\<lambda>(key, val) plugin_dict.
                         let val = cleanup val
                         in if val = PNone then plugin_dict
                            else dict_setitem (rename_key key) val plugin_dict)
                      items [])
      | PList xs \<Rightarrow> PList (map cleanup xs)
      | PUUID u \<Rightarrow> PStr (uuid_str u)
      | PDatetime t \<Rightarrow> PInt (float_to_int (total_seconds (datetime_sub t EPOCH)))
      | _ \<Rightarrow> obj)"

declare cleanup.simps [simp del]

section \<open>The query translator and the plugin collection endpoint\<close>

text \<open>
  What a handler can raise: the built-in \<open>ValueError\<close> and \<open>KeyError\<close>, the
  mapper's \<open>DoesNotExist\<close> and \<open>MultipleObjectsReturned\<close>, and the
  \<open>HTTPException\<close> that \<open>abort(code)\<close> raises. A handler that returns gives a
  body and a status code.
\<close>

datatype exn = ValueError | KeyError | DoesNotExist | MultipleObjectsReturned | HTTPException nat

type_synonym response = "pyval \<times> nat"

text \<open>
  The web framework around the handlers: the response to \<open>abort(code)\<close> carries
  that code, a returned pair carries its own, and any other exception that leaves
  the handler is answered with 500 Internal Server Error.
\<close>

fun http_status :: "exn + response \<Rightarrow> nat" where
  "http_status (Inr (body, code)) = code"
| "http_status (Inl (HTTPException code)) = code"
| "http_status (Inl e) = 500"

text \<open>
  \<open>request.args\<close> is a multi-dict, kept as the (key, value) pairs of the query
  string in order. \<open>k in args\<close> and \<open>args[k]\<close> read the first value of a key
  (\<open>map_of\<close>); \<open>args.items()\<close> gives each key once, with its first value.
\<close>

fun items_from :: "string list \<Rightarrow> (string \<times> string) list \<Rightarrow> (string \<times> string) list" where
  "items_from seen [] = []"
| "items_from seen ((k, v) # rest) =
     (if k \<in> set seen then items_from seen rest else (k, v) # items_from (k # seen) rest)"

definition args_items :: "(string \<times> string) list \<Rightarrow> (string \<times> string) list" where
  "args_items args = items_from [] args"







text \<open>\<open>s.lower()\<close>: the ASCII capitals move to their small letters.\<close>

definition lower_char :: "char \<Rightarrow> char" where
  "lower_char c =
     (if c \<in> set ''ABCDEFGHIJKLMNOPQRSTUVWXYZ'' then char_of (of_char c + (32 :: nat)) else c)"

definition lower :: "string \<Rightarrow> string" where
  "lower s = map lower_char s"


text \<open>
  Lines 67 to 71: the filter. \<open>plugin_query\<close> first holds the string values of
  every parameter but \<open>limit\<close> and \<open>type\<close>; \<open>plugin_query.update(...)\<close> then
  overwrites the values that read \<open>true\<close> or \<open>false\<close> with booleans.
\<close>

definition dict_update :: "('k \<times> 'v) list \<Rightarrow> ('k \<times> 'v) list \<Rightarrow> ('k \<times> 'v) list" where
  "dict_update d other = fold (\<lambda>(k, v) d. dict_setitem k v d) other d"

definition get_plugin_query :: "(string \<times> string) list \<Rightarrow> (string \<times> pyval) list" where
  "get_plugin_query args =
     (let plugin_query = filter (\<lambda>(k, v). k \<noteq> ''limit'' \<and> k \<noteq> ''type'') (args_items args);
          bools = map (\<lambda>(k, v). (k, PBool (lower v = ''true'')))
                    (filter (\<lambda>(k, v). lower v = ''true'' \<or> lower v = ''false'') plugin_query)
      in dict_update (map (\<lambda>(k, v). (k, PStr v)) plugin_query) bools)"

text \<open>
  Which document class a request addresses: \<open>Plugin\<close>, or \<open>SpigotPlugin\<close> when
  \<open>'type' in args and 'spigot' in args['type']\<close>.
\<close>

datatype variant = Plugin_class | SpigotPlugin_class

definition type_is_spigot :: "(string \<times> string) list \<Rightarrow> bool" where
  "type_is_spigot args =
     (case map_of args ''type'' of None \<Rightarrow> False | Some t \<Rightarrow> contains t ''spigot'')"


section \<open>Stored plugins and the endpoints that read and write them\<close>

text \<open>
  Modelled from the spec: the document classes \<open>Plugin\<close>, \<open>SpigotPlugin\<close> and
  \<open>PluginUpdate\<close> of \<open>metrics.database.models\<close> are not among the sources. A
  plugin has an identifier (a UUID), a name, a description, a download URL, its
  class, and an ordered sequence of updates; an update has a server identifier and
  caller-supplied fields. The collection is the list of stored plugins. The
  constructors \<open>Plugin(**body)\<close>, \<open>SpigotPlugin(**body)\<close>, \<open>PluginUpdate(**body)\<close>
  and \<open>to_mongo\<close> are parameters of the handlers that call them; a constructor
  either builds its document or raises.
\<close>

record PluginUpdate =
  server_id :: "string option"
  details :: "(string \<times> pyval) list"

record Plugin =
  ident :: "128 word"
  cls :: variant
  name :: "string option"
  description :: "string option"
  download_url :: "string option"
  updates :: "PluginUpdate list"
  other_fields :: "(string \<times> pyval) list"

text \<open>
  Modelled from the spec: the queries of the object-document mapper on the
  collection. \<open>Plugin.objects(id=plugin_id)\<close> selects by identifier; \<open>get\<close> wants
  exactly one match; \<open>first_or_404\<close> and \<open>get_or_404\<close> abort with 404 instead of
  returning nothing or raising; \<open>save\<close> replaces the stored plugin of the same
  identifier or adds a new one; \<open>update\<close> converts the request body first (which
  raises on a malformed value) and then changes every match; \<open>delete\<close> removes
  every match. The last two return the number of matches.
\<close>

definition objects_by_id :: "Plugin list \<Rightarrow> 128 word \<Rightarrow> Plugin list" where
  "objects_by_id db plugin_id = filter (\<lambda>p. ident p = plugin_id) db"

definition objects_get :: "Plugin list \<Rightarrow> 128 word \<Rightarrow> exn + Plugin" where
  "objects_get db plugin_id =
     (case objects_by_id db plugin_id of
        [] \<Rightarrow> Inl DoesNotExist
      | [p] \<Rightarrow> Inr p
      | p # q # rest \<Rightarrow> Inl MultipleObjectsReturned)"

definition first_or_404 :: "Plugin list \<Rightarrow> exn + Plugin" where
  "first_or_404 matches = (case matches of [] \<Rightarrow> Inl (HTTPException 404) | p # rest \<Rightarrow> Inr p)"

definition get_or_404 :: "Plugin list \<Rightarrow> 128 word \<Rightarrow> exn + Plugin" where
  "get_or_404 db plugin_id =
     (case objects_get db plugin_id of Inl e \<Rightarrow> Inl (HTTPException 404) | Inr p \<Rightarrow> Inr p)"

definition save :: "Plugin \<Rightarrow> Plugin list \<Rightarrow> Plugin list" where
  "save p db =
     (if ident p \<in> set (map ident db)
      then map (\<lambda>q. if ident q = ident p then p else q) db
      else db @ [p])"

definition objects_update ::
  "('b \<Rightarrow> exn + (Plugin \<Rightarrow> Plugin)) \<Rightarrow> Plugin list \<Rightarrow> 128 word \<Rightarrow> 'b
     \<Rightarrow> exn + (nat \<times> Plugin list)" where
  "objects_update convert db plugin_id body =
     (case convert body of
        Inl e \<Rightarrow> Inl e
      | Inr change \<Rightarrow>
          Inr (length (objects_by_id db plugin_id),
               map (\<lambda>p. if ident p = plugin_id then change p else p) db))"

definition objects_delete :: "Plugin list \<Rightarrow> 128 word \<Rightarrow> nat \<times> Plugin list" where
  "objects_delete db plugin_id =
     (length (objects_by_id db plugin_id), filter (\<lambda>p. ident p \<noteq> plugin_id) db)"

text \<open>
  \<open>PluginsAPI.post\<close>, lines 85 to 113. \<open>uuid4\<close> is the identifier that
  \<open>uuid.uuid4()\<close> draws and \<open>identity\<close> what \<open>get_jwt_identity()\<close> returns; the
  request body is a JSON object. The handler returns its outcome and the collection
  it leaves behind.
\<close>

definition no_server_id :: "PluginUpdate \<Rightarrow> bool" where
  "no_server_id update =
     (case server_id update of None \<Rightarrow> True | Some s \<Rightarrow> length s = 0)"

definition duplicates_of :: "Plugin list \<Rightarrow> Plugin \<Rightarrow> Plugin list" where
  "duplicates_of db plugin =
     filter (\<lambda>p. name p = name plugin \<and> description p = description plugin \<and>
                 download_url p = download_url plugin) db"

definition PluginsAPI_post ::
  "(variant \<Rightarrow> (string \<times> pyval) list \<Rightarrow> exn + Plugin) \<Rightarrow> 128 word \<Rightarrow> string \<Rightarrow> Plugin list
     \<Rightarrow> (string \<times> string) list \<Rightarrow> (string \<times> pyval) list \<Rightarrow> (exn + response) \<times> Plugin list" where
  "PluginsAPI_post construct uuid4 identity db args body =
     (case (if type_is_spigot args \<or> ''spigot_name'' \<in> set (map fst body)
            then construct SpigotPlugin_class body
            else construct Plugin_class body) of
        Inl e \<Rightarrow> (Inl e, db)
      | Inr plugin \<Rightarrow>
          let plugin = plugin\<lparr>ident := uuid4\<rparr>;
              plugin = plugin\<lparr>updates :=
                         map (\<lambda>update. if no_server_id update
                                        then update\<lparr>server_id := Some identity\<rparr>
                                        else update)
                             (updates plugin)\<rparr>;
              duplicates = duplicates_of db plugin
          in if length duplicates > 0
             then (Inr (PDict [(''msg'', PStr ''Document already exists.'')], 400), db)
             else (Inr (PDict [(''id'', PStr (uuid_str (ident plugin)))], 200), save plugin db))"

text \<open>\<open>PluginAPI.put\<close>, \<open>PluginAPI.delete\<close> and \<open>PluginAPI.get\<close>, lines 120 to 160.\<close>

definition not_found :: response where
  "not_found = (PDict [(''msg'', PStr ''No documents found under that id.'')], 404)"

definition PluginAPI_put ::
  "('b \<Rightarrow> exn + (Plugin \<Rightarrow> Plugin)) \<Rightarrow> Plugin list \<Rightarrow> 128 word \<Rightarrow> 'b
     \<Rightarrow> (exn + response) \<times> Plugin list" where
  "PluginAPI_put convert db plugin_id body =
     (case (case objects_update convert db plugin_id body of
              Inl e \<Rightarrow> if e = ValueError then Inr (0, db) else Inl e
            | Inr r \<Rightarrow> Inr r) of
        Inl e \<Rightarrow> (Inl e, db)
      | Inr (updated_doc_count, db') \<Rightarrow>
          if updated_doc_count > 0 then (Inr (PStr [], 200), db')
          else (Inr not_found, db'))"

definition PluginAPI_delete :: "Plugin list \<Rightarrow> 128 word \<Rightarrow> (exn + response) \<times> Plugin list" where
  "PluginAPI_delete db plugin_id =
     (case objects_delete db plugin_id of
        (deleted_doc_count, db') \<Rightarrow>
          if deleted_doc_count > 0 then (Inr (PStr [], 200), db')
          else (Inr not_found, db'))"

definition PluginAPI_get ::
  "(Plugin \<Rightarrow> (string \<times> pyval) list) \<Rightarrow> Plugin list \<Rightarrow> 128 word \<Rightarrow> exn + response" where
  "PluginAPI_get to_mongo db plugin_id =
     (case first_or_404 (objects_by_id db plugin_id) of
        Inl e \<Rightarrow> Inl e
      | Inr p \<Rightarrow> Inr (cleanup (PDict (to_mongo p)), 200))"

text \<open>\<open>UpdatesAPI.get\<close> and \<open>UpdatesAPI.post\<close>, lines 166 to 189.\<close>

definition UpdatesAPI_get ::
  "(Plugin \<Rightarrow> (string \<times> pyval) list) \<Rightarrow> Plugin list \<Rightarrow> 128 word \<Rightarrow> exn + response" where
  "UpdatesAPI_get to_mongo db plugin_id =
     (case get_or_404 db plugin_id of
        Inl e \<Rightarrow> Inl e
      | Inr plugin \<Rightarrow>
          (case map_of (to_mongo plugin) ''updates'' of
             None \<Rightarrow> Inl KeyError
           | Some v \<Rightarrow> Inr (cleanup v, 200)))"

definition UpdatesAPI_post ::
  "('b \<Rightarrow> exn + PluginUpdate) \<Rightarrow> string \<Rightarrow> Plugin list \<Rightarrow> 128 word \<Rightarrow> 'b
     \<Rightarrow> (exn + response) \<times> Plugin list" where
  "UpdatesAPI_post construct identity db plugin_id body =
     (case objects_get db plugin_id of
        Inl e \<Rightarrow> (Inl e, db)
      | Inr plugin \<Rightarrow>
          (case construct body of
             Inl e \<Rightarrow> (Inl e, db)
           | Inr plugin_update \<Rightarrow>
               let plugin_update = plugin_update\<lparr>server_id := Some identity\<rparr>;
                   plugin = plugin\<lparr>updates := updates plugin @ [plugin_update]\<rparr>
               in (Inr (PStr [], 200), save plugin db)))"

section \<open>Notions the properties are stated with\<close>

text \<open>The body of the loop in the mapping branch of \<open>_cleanup\<close>, by name.\<close>

definition store_item :: "string \<times> pyval \<Rightarrow> (string \<times> pyval) list \<Rightarrow> (string \<times> pyval) list" where
  "store_item = (\<lambda>(key, val) plugin_dict.
                   let val = cleanup val
                   in if val = PNone then plugin_dict
                      else dict_setitem (rename_key key) val plugin_dict)"

text \<open>The values that \<open>_cleanup\<close> turns into \<open>None\<close>.\<close>

definition cleans_to_none :: "pyval \<Rightarrow> bool" where
  "cleans_to_none v = (v = PNone \<or> (isinstance_Iterable v \<and> iter_count v = 0))"

text \<open>
  Documents on which normalizing is stable: in every mapping reached through
  mappings and lists no key begins with two underscores, and a mapping that has
  entries has one whose value is neither \<open>None\<close> nor empty.
\<close>

fun stable_doc :: "pyval \<Rightarrow> bool" where
  "stable_doc (PDict items) =
     (list_all (\<lambda>(k, v). \<not> startswith k ''__'' \<and> stable_doc v) items \<and>
      (items = [] \<or> list_ex (\<lambda>(k, v). \<not> cleans_to_none v) items))"
| "stable_doc (PList xs) = list_all stable_doc xs"
| "stable_doc v = True"

text \<open>
  No empty string, bytes, list, tuple or set, looking through mappings and lists,
  and no mapping entry whose value is \<open>None\<close>.
\<close>

fun no_empty_seq :: "pyval \<Rightarrow> bool" where
  "no_empty_seq (PDict items) = list_all (\<lambda>(k, v). v \<noteq> PNone \<and> no_empty_seq v) items"
| "no_empty_seq (PList xs) = (xs \<noteq> [] \<and> list_all no_empty_seq xs)"
| "no_empty_seq (PStr s) = (s \<noteq> [])"
| "no_empty_seq (PBytes b) = (b \<noteq> [])"
| "no_empty_seq (PTuple xs) = (xs \<noteq> [])"
| "no_empty_seq (PSet xs) = (xs \<noteq> [])"
| "no_empty_seq v = True"

text \<open>
  The entries of a mapping whose values are neither \<open>None\<close> nor empty, each under
  its renamed key and with its normalized value, in order.
\<close>

definition kept_entries :: "(string \<times> pyval) list \<Rightarrow> (string \<times> pyval) list" where
  "kept_entries items =
     map (\<lambda>(k, v). (rename_key k, cleanup v)) (filter (\<lambda>(k, v). \<not> cleans_to_none v) items)"

text \<open>The scalars: \<open>None\<close>, booleans, numbers, strings and bytes.\<close>

fun is_scalar :: "pyval \<Rightarrow> bool" where
  "is_scalar PNone = True"
| "is_scalar (PBool b) = True"
| "is_scalar (PInt i) = True"
| "is_scalar (PFloat x) = True"
| "is_scalar (PStr s) = True"
| "is_scalar (PBytes b) = True"
| "is_scalar v = False"

text \<open>
  A constructor for examples: it takes the name, the description and the download
  URL from the request body, where they are strings.
\<close>

definition str_field :: "(string \<times> pyval) list \<Rightarrow> string \<Rightarrow> string option" where
  "str_field body k = (case map_of body k of Some (PStr s) \<Rightarrow> Some s | _ \<Rightarrow> None)"

definition example_construct :: "variant \<Rightarrow> (string \<times> pyval) list \<Rightarrow> exn + Plugin" where
  "example_construct c body =
     Inr \<lparr>ident = 0, cls = c, name = str_field body ''name'',
          description = str_field body ''description'',
          download_url = str_field body ''download_url'', updates = [], other_fields = []\<rparr>"

text \<open>
  The whole seconds between a timestamp and the epoch, in exact integer arithmetic:
  the microseconds between them, divided by a million and truncated toward zero.
\<close>

definition whole_seconds_since_epoch :: "datetime \<Rightarrow> int" where
  "whole_seconds_since_epoch t =
     (let us = total_microseconds (datetime_sub t EPOCH)
      in sgn us * (\<bar>us\<bar> div 1000000))"

text \<open>
  The order of timestamps, which compares year, month, day, hour, minute, second
  and microsecond in turn.
\<close>

fun lex_le :: "int list \<Rightarrow> int list \<Rightarrow> bool" where
  "lex_le [] ys = True"
| "lex_le (x # xs) [] = False"
| "lex_le (x # xs) (y # ys) = (x < y \<or> (x = y \<and> lex_le xs ys))"

definition datetime_le :: "datetime \<Rightarrow> datetime \<Rightarrow> bool" where
  "datetime_le a b =
     lex_le [year a, month a, day a, hour a, minute a, second a, microsecond a]
            [year b, month b, day b, hour b, minute b, second b, microsecond b]"

text \<open>The lowercase hexadecimal digits.\<close>

definition is_hexdigit :: "char \<Rightarrow> bool" where
  "is_hexdigit c = (c \<in> set ''0123456789abcdef'')"

section \<open>The normalizer: idempotence, empty values, scalars\<close>

lemma cleanup_PDict:
  "cleanup (PDict items) = (if items = [] then PNone else PDict (fold store_item items []))"
  by (subst cleanup.simps) (simp add: store_item_def)

lemma cleanup_PList:
  "cleanup (PList xs) = (if xs = [] then PNone else PList (map cleanup xs))"
  by (subst cleanup.simps) simp

lemma cleanup_PUUID: "cleanup (PUUID u) = PStr (uuid_str u)"
  by (subst cleanup.simps) simp

lemma cleanup_PDatetime:
  "cleanup (PDatetime t) = PInt (float_to_int (total_seconds (datetime_sub t EPOCH)))"
  by (subst cleanup.simps) simp

lemma cleanup_scalars:
  "cleanup PNone = PNone"
  "cleanup (PBool b) = PBool b"
  "cleanup (PInt i) = PInt i"
  "cleanup (PFloat x) = PFloat x"
  "cleanup (PStr s) = (if s = [] then PNone else PStr s)"
  "cleanup (PBytes bs) = (if bs = [] then PNone else PBytes bs)"
  "cleanup (PTuple xs) = (if xs = [] then PNone else PTuple xs)"
  "cleanup (PSet xs) = (if xs = [] then PNone else PSet xs)"
  by (subst cleanup.simps, simp)+

lemma store_item_simp:
  "store_item (k, v) acc =
     (if cleanup v = PNone then acc else dict_setitem (rename_key k) (cleanup v) acc)"
  by (simp add: store_item_def Let_def)

lemma cleanup_none_iff: "cleanup v = PNone \<longleftrightarrow> cleans_to_none v"
  by (cases v)
     (simp_all add: cleans_to_none_def cleanup_scalars cleanup_PDict cleanup_PList
        cleanup_PUUID cleanup_PDatetime)

lemma length_hex32: "length (hex32 u) = 32"
  by (simp add: hex32_def)

lemma length_uuid_str: "length (uuid_str u) = 36"
  by (simp add: uuid_str_def Let_def length_hex32)

lemma dict_setitem_fresh: "k \<notin> set (map fst d) \<Longrightarrow> dict_setitem k v d = d @ [(k, v)]"
  by (induction d) (auto split: if_splits)

lemma dict_setitem_keys: "set (map fst (dict_setitem k v d)) = insert k (set (map fst d))"
proof (induction d)
  case Nil
  then show ?case by simp
next
  case (Cons a d)
  obtain k' v' where a: "a = (k', v')" by (cases a)
  show ?case using Cons.IH by (cases "k' = k") (simp_all add: a insert_commute)
qed

lemma dict_setitem_mem:
  "(k', v') \<in> set (dict_setitem k v d) \<Longrightarrow> (k', v') \<in> set d \<or> (k', v') = (k, v)"
  by (induction d) (auto split: if_splits)

lemma dict_setitem_nonempty: "dict_setitem k v d \<noteq> []"
  by (cases d) (auto split: if_splits)

lemma dict_setitem_distinct:
  "distinct (map fst d) \<Longrightarrow> distinct (map fst (dict_setitem k v d))"
proof (induction d)
  case Nil
  then show ?case by simp
next
  case (Cons a d)
  obtain k' v' where a: "a = (k', v')" by (cases a)
  show ?case
  proof (cases "k' = k")
    case True
    then show ?thesis using Cons.prems by (simp add: a)
  next
    case False
    have "k' \<notin> set (map fst (dict_setitem k v d))"
      using Cons.prems False by (simp add: a dict_setitem_keys del: set_map)
    then show ?thesis using Cons False by (simp add: a)
  qed
qed

lemma map_of_dict_setitem: "map_of (dict_setitem k v d) = (map_of d)(k \<mapsto> v)"
proof (induction d)
  case Nil
  then show ?case by simp
next
  case (Cons a d)
  obtain k' v' where a: "a = (k', v')" by (cases a)
  show ?case using Cons.IH by (cases "k' = k") (auto simp: a fun_upd_twist)
qed

lemma fold_store_distinct:
  "distinct (map fst acc) \<Longrightarrow> distinct (map fst (fold store_item items acc))"
proof (induction items arbitrary: acc)
  case Nil
  then show ?case by simp
next
  case (Cons a items)
  obtain k v where a: "a = (k, v)" by (cases a)
  have "distinct (map fst (store_item a acc))"
    using Cons.prems by (simp add: a store_item_simp dict_setitem_distinct)
  from Cons.IH[OF this] show ?case by simp
qed

lemma fold_store_mem:
  "(k', v') \<in> set (fold store_item items acc) \<Longrightarrow>
     (k', v') \<in> set acc \<or>
     (\<exists>k v. (k, v) \<in> set items \<and> k' = rename_key k \<and> v' = cleanup v \<and> v' \<noteq> PNone)"
proof (induction items arbitrary: acc)
  case Nil
  then show ?case by simp
next
  case (Cons a items)
  obtain k v where a: "a = (k, v)" by (cases a)
  from Cons.prems have "(k', v') \<in> set (fold store_item items (store_item a acc))" by simp
  from Cons.IH[OF this] consider
      (old) "(k', v') \<in> set (store_item a acc)"
    | (new) "\<exists>k v. (k, v) \<in> set items \<and> k' = rename_key k \<and> v' = cleanup v \<and> v' \<noteq> PNone"
    by blast
  then show ?case
  proof cases
    case old
    show ?thesis
    proof (cases "cleanup v = PNone")
      case True
      with old show ?thesis by (simp add: a store_item_simp)
    next
      case False
      with old have "(k', v') \<in> set (dict_setitem (rename_key k) (cleanup v) acc)"
        by (simp add: a store_item_simp)
      from dict_setitem_mem[OF this] show ?thesis
        using False a by auto
    qed
  next
    case new
    then show ?thesis by auto
  qed
qed

lemma fold_store_keeps_nonempty: "acc \<noteq> [] \<Longrightarrow> fold store_item items acc \<noteq> []"
proof (induction items arbitrary: acc)
  case Nil
  then show ?case by simp
next
  case (Cons a items)
  obtain k v where a: "a = (k, v)" by (cases a)
  have "store_item a acc \<noteq> []"
    using Cons.prems by (simp add: a store_item_simp dict_setitem_nonempty)
  from Cons.IH[OF this] show ?case by simp
qed

lemma fold_store_nonempty:
  "list_ex (\<lambda>(k, v). \<not> cleans_to_none v) items \<Longrightarrow> fold store_item items acc \<noteq> []"
proof (induction items arbitrary: acc)
  case Nil
  then show ?case by simp
next
  case (Cons a items)
  obtain k v where a: "a = (k, v)" by (cases a)
  show ?case
  proof (cases "cleanup v = PNone")
    case True
    then have "cleans_to_none v" using cleanup_none_iff by blast
    with Cons.prems a have "list_ex (\<lambda>(k, v). \<not> cleans_to_none v) items" by simp
    from Cons.IH[OF this] show ?thesis by simp
  next
    case False
    then have "store_item a acc \<noteq> []"
      by (simp add: a store_item_simp dict_setitem_nonempty)
    then show ?thesis by (simp add: fold_store_keeps_nonempty)
  qed
qed

lemma fold_store_fixed:
  "distinct (map fst r) \<Longrightarrow> set (map fst r) \<inter> set (map fst acc) = {} \<Longrightarrow>
   (\<And>k v. (k, v) \<in> set r \<Longrightarrow> rename_key k = k \<and> cleanup v = v \<and> v \<noteq> PNone) \<Longrightarrow>
   fold store_item r acc = acc @ r"
proof (induction r arbitrary: acc)
  case Nil
  then show ?case by simp
next
  case (Cons a r)
  obtain k v where a: "a = (k, v)" by (cases a)
  have kv: "rename_key k = k" "cleanup v = v" "v \<noteq> PNone"
    using Cons.prems(3)[of k v] by (simp_all add: a)
  have fresh: "k \<notin> set (map fst acc)" using Cons.prems(2) by (auto simp: a)
  have step: "store_item a acc = acc @ [(k, v)]"
    by (simp add: a store_item_simp kv dict_setitem_fresh[OF fresh])
  have d: "distinct (map fst r)" using Cons.prems(1) by simp
  have disj: "set (map fst r) \<inter> set (map fst (acc @ [(k, v)])) = {}"
    using Cons.prems(1,2) by (auto simp: a)
  have "fold store_item r (acc @ [(k, v)]) = (acc @ [(k, v)]) @ r"
    by (rule Cons.IH[OF d disj]) (use Cons.prems(3) in auto)
  then show ?case using step by (simp add: a)
qed

lemma startswith_underscore: "startswith k ''_'' \<longleftrightarrow> (\<exists>r. k = CHR ''_'' # r)"
  by (cases k) (simp_all add: startswith_def)

lemma startswith_underscore2:
  "startswith k ''__'' \<longleftrightarrow> (\<exists>r. k = CHR ''_'' # CHR ''_'' # r)"
proof (cases k)
  case Nil
  then show ?thesis by (simp add: startswith_def)
next
  case (Cons c cs)
  then show ?thesis by (cases cs) (auto simp: startswith_def)
qed

lemma rename_key_fixed:
  "\<not> startswith k ''__'' \<Longrightarrow> rename_key (rename_key k) = rename_key k"
proof (cases "k = ''_cls''")
  case True
  then show ?thesis by (simp add: rename_key_def startswith_def)
next
  case notcls: False
  assume no2: "\<not> startswith k ''__''"
  show ?thesis
  proof (cases "startswith k ''_''")
    case True
    then obtain r where k: "k = CHR ''_'' # r" using startswith_underscore by blast
    have r1: "rename_key k = r" using notcls True by (simp add: rename_key_def k)
    have "\<not> startswith r ''_''"
      using no2 by (auto simp: k startswith_underscore startswith_underscore2)
    moreover from this have "r \<noteq> ''_cls''" by (auto simp: startswith_def)
    ultimately have "rename_key r = r" by (simp add: rename_key_def)
    then show ?thesis by (simp add: r1)
  next
    case False
    then have "rename_key k = k" using notcls by (simp add: rename_key_def)
    then show ?thesis by simp
  qed
qed

text \<open>
  Claim C1, as the code has it. Normalizing twice gives the same result as
  normalizing once for every document in which no mapping key begins with two
  underscores and no mapping with entries has only values that are \<open>None\<close> or
  empty (\<open>stable_doc\<close>).
\<close>

theorem cleanup_idempotent_on_stable:
  "stable_doc d \<Longrightarrow> cleanup (cleanup d) = cleanup d"
proof (induction d rule: cleanup.induct)
  case (1 obj)
  show ?case
  proof (cases obj)
    case (PDict items)
    show ?thesis
    proof (cases "items = []")
      case True
      then show ?thesis by (simp add: PDict cleanup_PDict cleanup_scalars)
    next
      case False
      let ?r = "fold store_item items []"
      have ne: "?r \<noteq> []"
        using "1.prems" False by (simp add: PDict fold_store_nonempty)
      have dist: "distinct (map fst ?r)" by (simp add: fold_store_distinct)
      have fixed: "rename_key k = k \<and> cleanup v = v \<and> v \<noteq> PNone"
        if "(k, v) \<in> set ?r" for k v
      proof -
        from fold_store_mem[OF that] obtain k0 v0 where
          kv: "(k0, v0) \<in> set items" "k = rename_key k0" "v = cleanup v0" "v \<noteq> PNone"
          by auto
        have ok: "\<not> startswith k0 ''__''" "stable_doc v0"
          using "1.prems" kv(1) by (auto simp: PDict list_all_iff)
        have "\<not> (isinstance_Iterable obj \<and> iter_count obj = 0)"
          using False by (simp add: PDict)
        from "1.IH"(2)[OF this PDict kv(1) refl ok(2)]
        have "cleanup (cleanup v0) = cleanup v0" .
        then show ?thesis using kv ok(1) by (simp add: rename_key_fixed)
      qed
      have "fold store_item ?r [] = [] @ ?r"
        by (rule fold_store_fixed[OF dist]) (use fixed in auto)
      then show ?thesis using ne False by (simp add: PDict cleanup_PDict)
    qed
  next
    case (PList xs)
    show ?thesis
    proof (cases "xs = []")
      case True
      then show ?thesis by (simp add: PList cleanup_PList cleanup_scalars)
    next
      case False
      then have ni: "\<not> (isinstance_Iterable obj \<and> iter_count obj = 0)"
        by (simp add: PList)
      have "cleanup (cleanup x) = cleanup x" if "x \<in> set xs" for x
        using "1.IH"(1)[OF ni PList that] "1.prems" that
        by (simp add: PList list_all_iff)
      then show ?thesis using False by (simp add: PList cleanup_PList)
    qed
  next
    case (PUUID u)
    have "uuid_str u \<noteq> []" using length_uuid_str[of u] by auto
    then show ?thesis by (simp add: PUUID cleanup_PUUID cleanup_scalars)
  next
    case (PDatetime t)
    then show ?thesis by (simp add: cleanup_PDatetime cleanup_scalars)
  qed (simp_all add: cleanup_scalars)
qed

text \<open>The theorem at a stored plugin document.\<close>

theorem cleanup_idempotent_on_stable_witness:
  "stable_doc (PDict [(''_id'', PUUID 5), (''_cls'', PStr ''Plugin''), (''updates'', PList [])]) \<and>
   cleanup (PDict [(''_id'', PUUID 5), (''_cls'', PStr ''Plugin''), (''updates'', PList [])])
     = PDict [(''id'', PStr ''00000000-0000-0000-0000-000000000005''), (''type'', PStr ''Plugin'')] \<and>
   cleanup (cleanup (PDict [(''_id'', PUUID 5), (''_cls'', PStr ''Plugin''), (''updates'', PList [])]))
     = cleanup (PDict [(''_id'', PUUID 5), (''_cls'', PStr ''Plugin''), (''updates'', PList [])])"
proof -
  let ?d = "PDict [(''_id'', PUUID 5), (''_cls'', PStr ''Plugin''), (''updates'', PList [])]"
  have h: "stable_doc ?d"
    by (simp add: startswith_def cleans_to_none_def)
  have u: "uuid_str 5 = ''00000000-0000-0000-0000-000000000005''"
    by code_simp
  have c: "cleanup ?d = PDict [(''id'', PStr ''00000000-0000-0000-0000-000000000005''), (''type'', PStr ''Plugin'')]"
    by (simp add: cleanup_PDict store_item_simp cleanup_PUUID cleanup_scalars cleanup_PList
          rename_key_def startswith_def u)
  show ?thesis using h c cleanup_idempotent_on_stable[OF h] by simp
qed

text \<open>
  Claim C1 as stated fails: a key with two leading underscores loses one of them
  at each pass, and a mapping whose only value is empty becomes the empty mapping,
  which the next pass turns into \<open>None\<close>.
\<close>

theorem cleanup_not_idempotent:
  "cleanup (cleanup (PDict [(''__v'', PInt 1)])) \<noteq> cleanup (PDict [(''__v'', PInt 1)]) \<and>
   cleanup (cleanup (PDict [(''updates'', PList [])])) \<noteq> cleanup (PDict [(''updates'', PList [])])"
  by (simp add: cleanup_PDict store_item_simp cleanup_scalars cleanup_PList rename_key_def
        startswith_def)

lemma fold_store_no_empty:
  assumes "\<And>k v. (k, v) \<in> set items \<Longrightarrow> no_empty_seq (cleanup v)"
  shows "no_empty_seq (PDict (fold store_item items []))"
proof -
  have "v' \<noteq> PNone \<and> no_empty_seq v'" if "(k', v') \<in> set (fold store_item items [])" for k' v'
    using fold_store_mem[OF that] assms by auto
  then show ?thesis by (auto simp: list_all_iff)
qed

lemma cleanup_no_empty_seq: "no_empty_seq (cleanup d)"
proof (induction d rule: cleanup.induct)
  case (1 obj)
  show ?case
  proof (cases obj)
    case (PDict items)
    show ?thesis
    proof (cases "items = []")
      case True
      then show ?thesis by (simp add: PDict cleanup_PDict)
    next
      case False
      then have ni: "\<not> (isinstance_Iterable obj \<and> iter_count obj = 0)"
        by (simp add: PDict)
      have "no_empty_seq (cleanup v)" if "(k, v) \<in> set items" for k v
        using "1.IH"(2)[OF ni PDict that refl] .
      then have "no_empty_seq (PDict (fold store_item items []))"
        by (rule fold_store_no_empty)
      then show ?thesis using False by (simp add: PDict cleanup_PDict)
    qed
  next
    case (PList xs)
    show ?thesis
    proof (cases "xs = []")
      case True
      then show ?thesis by (simp add: PList cleanup_PList)
    next
      case False
      then have ni: "\<not> (isinstance_Iterable obj \<and> iter_count obj = 0)"
        by (simp add: PList)
      have "no_empty_seq (cleanup x)" if "x \<in> set xs" for x
        using "1.IH"(1)[OF ni PList that] .
      then show ?thesis using False by (simp add: PList cleanup_PList list_all_iff)
    qed
  next
    case (PUUID u)
    have "uuid_str u \<noteq> []" using length_uuid_str[of u] by auto
    then show ?thesis by (simp add: PUUID cleanup_PUUID)
  next
    case (PDatetime t)
    then show ?thesis by (simp add: cleanup_PDatetime)
  qed (simp_all add: cleanup_scalars)
qed

lemma map_of_fold_store:
  "map_of (fold store_item items acc) = map_of acc ++ map_of (rev (kept_entries items))"
proof (induction items arbitrary: acc)
  case Nil
  then show ?case by (simp add: kept_entries_def)
next
  case (Cons a items)
  obtain k v where a: "a = (k, v)" by (cases a)
  show ?case
  proof (cases "cleans_to_none v")
    case True
    then have "cleanup v = PNone" using cleanup_none_iff by blast
    then have "store_item a acc = acc" by (simp add: a store_item_simp)
    moreover have "kept_entries (a # items) = kept_entries items"
      using True by (simp add: a kept_entries_def)
    ultimately show ?thesis using Cons.IH[of acc] by simp
  next
    case False
    then have nn: "cleanup v \<noteq> PNone" using cleanup_none_iff by blast
    have st: "store_item a acc = dict_setitem (rename_key k) (cleanup v) acc"
      using nn by (simp add: a store_item_simp)
    have ke: "kept_entries (a # items) = (rename_key k, cleanup v) # kept_entries items"
      using False by (simp add: a kept_entries_def)
    have ih: "map_of (fold store_item items (store_item a acc))
                = map_of (store_item a acc) ++ map_of (rev (kept_entries items))"
      by (rule Cons.IH)
    have "fold store_item (a # items) acc = fold store_item items (store_item a acc)"
      by simp
    then have "map_of (fold store_item (a # items) acc)
            = map_of (dict_setitem (rename_key k) (cleanup v) acc) ++ map_of (rev (kept_entries items))"
      using ih by (simp only: st)
    also have "\<dots> = (map_of acc)(rename_key k \<mapsto> cleanup v) ++ map_of (rev (kept_entries items))"
      by (simp only: map_of_dict_setitem)
    also have "\<dots> = map_of acc ++ map_of (rev (kept_entries (a # items)))"
      by (rule ext) (simp add: ke map_add_def split: option.splits)
    finally show ?thesis .
  qed
qed

text \<open>
  Claim C2, as the code has it. An empty string, bytes, list, tuple, set or mapping
  at top level normalizes to \<open>None\<close>, and a value normalizes to \<open>None\<close> exactly
  when it is \<open>None\<close> or empty. A list that has elements normalizes to the list of
  its normalized elements, so an empty element is replaced by \<open>None\<close> and not left
  out. A mapping with a value that is neither \<open>None\<close> nor empty normalizes to a
  mapping with entries: exactly those whose values are neither \<open>None\<close> nor empty,
  under their renamed keys and with their normalized values, the later of two
  entries with one renamed key winning; entries with empty values are left out.
  Looking through the mappings and lists of the output, no empty string, bytes,
  list, tuple or set is found and no mapping entry is \<open>None\<close>.
\<close>

theorem cleanup_empty_values:
  "(isinstance_Iterable d \<and> iter_count d = 0 \<longrightarrow> cleanup d = PNone) \<and>
   (cleanup d = PNone \<longleftrightarrow> cleans_to_none d) \<and>
   (xs \<noteq> [] \<longrightarrow> cleanup (PList xs) = PList (map cleanup xs)) \<and>
   (list_ex (\<lambda>(k, v). \<not> cleans_to_none v) items \<longrightarrow>
      (\<exists>out. cleanup (PDict items) = PDict out \<and> out \<noteq> [] \<and> distinct (map fst out) \<and>
             map_of out = map_of (rev (kept_entries items)))) \<and>
   no_empty_seq (cleanup d)"
proof (intro conjI impI)
  assume "isinstance_Iterable d \<and> iter_count d = 0"
  then show "cleanup d = PNone" by (subst cleanup.simps) simp
next
  show "cleanup d = PNone \<longleftrightarrow> cleans_to_none d" by (rule cleanup_none_iff)
next
  assume "xs \<noteq> []"
  then show "cleanup (PList xs) = PList (map cleanup xs)" by (simp add: cleanup_PList)
next
  assume ex: "list_ex (\<lambda>(k, v). \<not> cleans_to_none v) items"
  then have ne: "items \<noteq> []" by auto
  let ?out = "fold store_item items []"
  have "cleanup (PDict items) = PDict ?out" using ne by (simp add: cleanup_PDict)
  moreover have "?out \<noteq> []" using ex by (rule fold_store_nonempty)
  moreover have "distinct (map fst ?out)" by (simp add: fold_store_distinct)
  moreover have "map_of ?out = map_of (rev (kept_entries items))"
    by (simp add: map_of_fold_store)
  ultimately show "\<exists>out. cleanup (PDict items) = PDict out \<and> out \<noteq> [] \<and> distinct (map fst out) \<and>
             map_of out = map_of (rev (kept_entries items))"
    by blast
next
  show "no_empty_seq (cleanup d)" by (rule cleanup_no_empty_seq)
qed

text \<open>
  The theorem at an empty set, a list with an empty list in it, and a stored
  document with an empty set and an empty string inside.
\<close>

theorem cleanup_empty_values_witness:
  "cleans_to_none (PSet []) \<and> cleanup (PSet []) = PNone \<and>
   cleanup (PList [PList [], PStr ''v'']) = PList [PNone, PStr ''v''] \<and>
   list_ex (\<lambda>(k, v). \<not> cleans_to_none v)
     [(''name'', PStr ''x''), (''tags'', PSet []), (''_cls'', PStr ''Plugin''),
      (''updates'', PList [PStr [], PInt 1])] \<and>
   cleanup (PDict [(''name'', PStr ''x''), (''tags'', PSet []), (''_cls'', PStr ''Plugin''),
                   (''updates'', PList [PStr [], PInt 1])])
     = PDict [(''name'', PStr ''x''), (''type'', PStr ''Plugin''),
              (''updates'', PList [PNone, PInt 1])] \<and>
   kept_entries [(''name'', PStr ''x''), (''tags'', PSet []), (''_cls'', PStr ''Plugin''),
                 (''updates'', PList [PStr [], PInt 1])]
     = [(''name'', PStr ''x''), (''type'', PStr ''Plugin''), (''updates'', PList [PNone, PInt 1])] \<and>
   no_empty_seq (PDict [(''name'', PStr ''x''), (''type'', PStr ''Plugin''),
                        (''updates'', PList [PNone, PInt 1])])"
proof -
  let ?items = "[(''name'', PStr ''x''), (''tags'', PSet []), (''_cls'', PStr ''Plugin''),
                 (''updates'', PList [PStr [], PInt 1])]"
  let ?out = "[(''name'', PStr ''x''), (''type'', PStr ''Plugin''),
               (''updates'', PList [PNone, PInt 1])]"
  have ex: "list_ex (\<lambda>(k, v). \<not> cleans_to_none v) ?items"
    by (simp add: cleans_to_none_def)
  have xs: "[PList [], PStr ''v''] \<noteq> []" by simp
  have c: "cleanup (PDict ?items) = PDict ?out"
    by (simp add: cleanup_PDict store_item_simp cleanup_scalars cleanup_PList rename_key_def
          startswith_def)
  have k: "kept_entries ?items = ?out"
    by (simp add: kept_entries_def cleans_to_none_def cleanup_scalars cleanup_PList
          rename_key_def startswith_def)
  have e: "cleans_to_none (PSet [])" by (simp add: cleans_to_none_def)
  have l: "map cleanup [PList [], PStr ''v''] = [PNone, PStr ''v'']"
    by (simp add: cleanup_PList cleanup_scalars)
  show ?thesis
    using cleanup_empty_values[of "PSet []" "[PList [], PStr ''v'']" ?items]
      cleanup_empty_values[of "PDict ?items" "[PList [], PStr ''v'']" ?items]
      ex xs c k e l
    by simp
qed

text \<open>
  Claim C2 as stated fails: a mapping all of whose values normalize to \<open>None\<close>
  comes out as the empty mapping, also nested; and an empty value inside a list is
  not left out but replaced by \<open>None\<close>.
\<close>

theorem cleanup_keeps_empty_mapping:
  "cleanup (PDict [(''plugin'', PDict [(''updates'', PList [])])]) = PDict [(''plugin'', PDict [])] \<and>
   cleanup (PList [PList [], PStr ''v'']) = PList [PNone, PStr ''v'']"
  by (simp add: cleanup_PDict store_item_simp cleanup_scalars cleanup_PList rename_key_def
        startswith_def)

text \<open>
  Claim C3, as the code has it. \<open>None\<close>, booleans, numbers, and non-empty strings
  and bytes come back unchanged; the empty string (and empty bytes) comes back as
  \<open>None\<close>.
\<close>

theorem cleanup_scalar:
  "is_scalar obj \<Longrightarrow>
     cleanup obj = (if obj = PStr [] \<or> obj = PBytes [] then PNone else obj)"
  by (cases obj) (simp_all add: cleanup_scalars)

text \<open>The theorem at a string, a number, a boolean and \<open>None\<close>.\<close>

theorem cleanup_scalar_witness:
  "is_scalar (PStr ''1.0.2'') \<and> cleanup (PStr ''1.0.2'') = PStr ''1.0.2'' \<and>
   is_scalar (PInt (- 7)) \<and> cleanup (PInt (- 7)) = PInt (- 7) \<and>
   is_scalar (PBool False) \<and> cleanup (PBool False) = PBool False \<and>
   is_scalar PNone \<and> cleanup PNone = PNone"
  using cleanup_scalar[of "PStr ''1.0.2''"] cleanup_scalar[of "PInt (- 7)"]
    cleanup_scalar[of "PBool False"] cleanup_scalar[of PNone]
  by simp

text \<open>Claim C3 as stated fails at the empty string, which is a scalar.\<close>

theorem cleanup_empty_string_not_kept:
  "is_scalar (PStr []) \<and> cleanup (PStr []) \<noteq> PStr []"
  by (simp add: cleanup_scalars)

section \<open>The query translator\<close>

lemma map_of_dict_update:
  "map_of (dict_update d other) = map_of d ++ map_of (rev other)"
  unfolding dict_update_def
proof (induction other arbitrary: d)
  case Nil
  then show ?case by simp
next
  case (Cons a other)
  obtain k v where a: "a = (k, v)" by (cases a)
  have "map_of (fold (\<lambda>(k, v). dict_setitem k v) other (dict_setitem k v d))
          = map_of (dict_setitem k v d) ++ map_of (rev other)"
    by (rule Cons.IH)
  then show ?case by (simp add: a map_of_dict_setitem)
qed

lemma dict_update_distinct:
  "distinct (map fst d) \<Longrightarrow> distinct (map fst (dict_update d other))"
  unfolding dict_update_def
proof (induction other arbitrary: d)
  case Nil
  then show ?case by simp
next
  case (Cons a other)
  obtain k v where a: "a = (k, v)" by (cases a)
  have "distinct (map fst (dict_setitem k v d))"
    using Cons.prems by (rule dict_setitem_distinct)
  from Cons.IH[OF this] show ?case by (simp add: a)
qed

lemma items_from_keys: "set (map fst (items_from seen args)) = set (map fst args) - set seen"
proof (induction seen args rule: items_from.induct)
  case (1 seen)
  then show ?case by simp
next
  case (2 seen k v rest)
  then show ?case by (cases "k \<in> set seen") auto
qed

lemma items_from_distinct: "distinct (map fst (items_from seen args))"
proof (induction seen args rule: items_from.induct)
  case (1 seen)
  then show ?case by simp
next
  case (2 seen k v rest)
  show ?case
  proof (cases "k \<in> set seen")
    case True
    then show ?thesis using 2 by simp
  next
    case False
    have "k \<notin> set (map fst (items_from (k # seen) rest))"
      by (simp add: items_from_keys del: set_map)
    then show ?thesis using False 2 by simp
  qed
qed

lemma map_of_items_from:
  "map_of (items_from seen args) k = (if k \<in> set seen then None else map_of args k)"
proof (induction seen args rule: items_from.induct)
  case (1 seen)
  then show ?case by simp
next
  case (2 seen k' v rest)
  then show ?case by (cases "k' \<in> set seen") auto
qed

lemma map_of_args_items: "map_of (args_items args) = map_of args"
  by (rule ext) (simp add: args_items_def map_of_items_from)

lemma map_of_filter_key:
  "map_of (filter (\<lambda>(k, v). P k) xs) k = (if P k then map_of xs k else None)"
  by (induction xs) auto

lemma map_of_filter_value:
  "distinct (map fst xs) \<Longrightarrow>
   map_of (filter (\<lambda>(k, v). B v) xs) k =
     (case map_of xs k of None \<Rightarrow> None | Some v \<Rightarrow> if B v then Some v else None)"
proof (induction xs)
  case Nil
  then show ?case by simp
next
  case (Cons a xs)
  obtain k' v' where a: "a = (k', v')" by (cases a)
  have d: "distinct (map fst xs)" and fresh: "k' \<notin> set (map fst xs)"
    using Cons.prems by (simp_all add: a)
  have none: "map_of xs k' = None" using fresh by (simp add: map_of_eq_None_iff)
  have nonef: "map_of (filter (\<lambda>(k, v). B v) xs) k' = None"
    using fresh by (auto simp: map_of_eq_None_iff)
  show ?case
  proof (cases "k = k'")
    case True
    then show ?thesis using none nonef by (simp add: a)
  next
    case False
    then show ?thesis using Cons.IH[OF d] by (simp add: a)
  qed
qed

lemma distinct_filter_keys: "distinct (map fst xs) \<Longrightarrow> distinct (map fst (filter P xs))"
  by (induction xs) auto

lemma map_fst_map_snd: "map fst (map (\<lambda>(k, v). (k, f v)) xs) = map fst xs"
  by (induction xs) auto

lemma map_of_rev_distinct: "distinct (map fst xs) \<Longrightarrow> map_of (rev xs) = map_of xs"
proof (rule ext)
  fix k
  assume d: "distinct (map fst xs)"
  then have dr: "distinct (map fst (rev xs))" by (simp add: rev_map[symmetric])
  show "map_of (rev xs) k = map_of xs k"
  proof (cases "map_of xs k")
    case None
    then have "k \<notin> fst ` set xs" by (simp add: map_of_eq_None_iff)
    then have "map_of (rev xs) k = None" by (simp add: map_of_eq_None_iff)
    with None show ?thesis by simp
  next
    case (Some v)
    then have "(k, v) \<in> set (rev xs)" by (auto dest: map_of_SomeD)
    with dr have "map_of (rev xs) k = Some v" by (rule map_of_is_SomeI)
    with Some show ?thesis by simp
  qed
qed


text \<open>
  Claim C8. The filter built from the query parameters has no entry for \<open>limit\<close>
  or \<open>type\<close>; every other parameter has one, under its own name: \<open>True\<close> when
  its (first) value reads \<open>true\<close> in any mix of cases, \<open>False\<close> when it reads
  \<open>false\<close>, and the value itself, as a string, otherwise. This filter is what
  \<open>PluginsAPI.get\<close> hands to the query (see the theorem of claim C10).
\<close>

theorem plugin_query_filter:
  "map_of (get_plugin_query args) k =
     (if k = ''limit'' \<or> k = ''type'' then None
      else case map_of args k of
             None \<Rightarrow> None
           | Some v \<Rightarrow> Some (if lower v = ''true'' then PBool True
                             else if lower v = ''false'' then PBool False
                             else PStr v))"
proof -
  define pq where "pq = filter (\<lambda>(k, v). k \<noteq> ''limit'' \<and> k \<noteq> ''type'') (args_items args)"
  define bools where
    "bools = map (\<lambda>(k, v). (k, PBool (lower v = ''true'')))
               (filter (\<lambda>(k, v). lower v = ''true'' \<or> lower v = ''false'') pq)"
  have gq: "get_plugin_query args = dict_update (map (\<lambda>(k, v). (k, PStr v)) pq) bools"
    by (simp add: get_plugin_query_def pq_def bools_def Let_def)
  have dpq: "distinct (map fst pq)"
    unfolding pq_def args_items_def by (rule distinct_filter_keys) (rule items_from_distinct)
  have mpq: "map_of pq k = (if k \<noteq> ''limit'' \<and> k \<noteq> ''type'' then map_of args k else None)"
    unfolding pq_def
    using map_of_filter_key[of "\<lambda>k. k \<noteq> ''limit'' \<and> k \<noteq> ''type''" "args_items args" k]
    by (simp add: map_of_args_items)
  have dbools: "distinct (map fst bools)"
    unfolding bools_def
    by (subst map_fst_map_snd) (rule distinct_filter_keys[OF dpq])
  have mbools: "map_of bools k =
      (case map_of pq k of None \<Rightarrow> None
       | Some v \<Rightarrow> if lower v = ''true'' \<or> lower v = ''false''
                   then Some (PBool (lower v = ''true'')) else None)"
    unfolding bools_def
    by (simp add: map_of_map map_of_filter_value[OF dpq] split: option.splits)
  have "map_of (get_plugin_query args) k =
      (map_of (map (\<lambda>(k, v). (k, PStr v)) pq) ++ map_of bools) k"
    by (simp add: gq map_of_dict_update map_of_rev_distinct[OF dbools])
  also have "\<dots> = (case map_of bools k of None \<Rightarrow> map_option PStr (map_of pq k) | Some b \<Rightarrow> Some b)"
    by (simp add: map_add_def map_of_map split: option.splits)
  finally have r: "map_of (get_plugin_query args) k =
      (case map_of bools k of None \<Rightarrow> map_option PStr (map_of pq k) | Some b \<Rightarrow> Some b)" .
  show ?thesis unfolding r mbools mpq
    by (simp split: option.splits)
qed

text \<open>The theorem at a query with a limit, a type, two booleans and a string.\<close>

theorem plugin_query_filter_witness:
  "map_of (get_plugin_query [(''limit'', ''5''), (''premium'', ''TRUE''), (''name'', ''x''),
                             (''type'', ''spigot''), (''beta'', ''False'')]) ''premium''
     = Some (PBool True) \<and>
   map_of (get_plugin_query [(''limit'', ''5''), (''premium'', ''TRUE''), (''name'', ''x''),
                             (''type'', ''spigot''), (''beta'', ''False'')]) ''beta''
     = Some (PBool False) \<and>
   map_of (get_plugin_query [(''limit'', ''5''), (''premium'', ''TRUE''), (''name'', ''x''),
                             (''type'', ''spigot''), (''beta'', ''False'')]) ''name''
     = Some (PStr ''x'') \<and>
   map_of (get_plugin_query [(''limit'', ''5''), (''premium'', ''TRUE''), (''name'', ''x''),
                             (''type'', ''spigot''), (''beta'', ''False'')]) ''limit'' = None \<and>
   map_of (get_plugin_query [(''limit'', ''5''), (''premium'', ''TRUE''), (''name'', ''x''),
                             (''type'', ''spigot''), (''beta'', ''False'')]) ''type'' = None"
proof -
  let ?args = "[(''limit'', ''5''), (''premium'', ''TRUE''), (''name'', ''x''),
                (''type'', ''spigot''), (''beta'', ''False'')]"
  have l: "lower ''TRUE'' = ''true''" "lower ''False'' = ''false''" "lower ''x'' = ''x''"
    by code_simp+
  show ?thesis
    using plugin_query_filter[of ?args "''premium''"] plugin_query_filter[of ?args "''beta''"]
      plugin_query_filter[of ?args "''name''"] plugin_query_filter[of ?args "''limit''"]
      plugin_query_filter[of ?args "''type''"]
    by (simp add: l)
qed





section \<open>The endpoints on stored plugins\<close>

lemma filter_map_replace:
  "P c \<Longrightarrow> filter P (map (\<lambda>q. if P q then c else q) db) = map (\<lambda>q. c) (filter P db)"
  by (induction db) auto

lemma objects_get_single:
  "objects_get db plugin_id = Inr p \<Longrightarrow> objects_by_id db plugin_id = [p]"
  by (auto simp: objects_get_def split: list.splits)

lemma objects_by_id_save:
  assumes "objects_by_id db plugin_id = [p]" and "ident p' = plugin_id"
  shows "objects_by_id (save p' db) plugin_id = [p']"
proof -
  have "p \<in> set (filter (\<lambda>q. ident q = plugin_id) db)"
    using assms(1) by (simp add: objects_by_id_def)
  then have "p \<in> set db" and "ident p = ident p'"
    using assms(2) by simp_all
  then have "ident p' \<in> ident ` set db"
    by (metis imageI)
  then have mem: "ident p' \<in> set (map ident db)"
    by simp
  have "filter (\<lambda>q. ident q = plugin_id) (map (\<lambda>q. if ident q = plugin_id then p' else q) db)
          = map (\<lambda>q. p') (filter (\<lambda>q. ident q = plugin_id) db)"
    using assms(2) by (rule filter_map_replace)
  then show ?thesis
    using assms mem by (simp add: objects_by_id_def save_def)
qed

lemma save_others:
  "ident q \<noteq> ident p' \<Longrightarrow> q \<in> set (save p' db) \<longleftrightarrow> q \<in> set db"
  by (auto simp: save_def)

lemma duplicates_of_fields:
  "duplicates_of db (p\<lparr>ident := i, updates := us\<rparr>) = duplicates_of db p"
  by (simp add: duplicates_of_def)

text \<open>
  Claim C7. When the plugin exists and \<open>PluginUpdate(**body)\<close> builds an update,
  appending answers 200; afterwards the plugin has its former updates followed by
  the new one, whose server identifier is the caller's identity whatever the body
  gave; the other plugins are as before.
\<close>

theorem append_update_forces_server_id:
  assumes "objects_get db plugin_id = Inr plugin"
    and "construct body = Inr plugin_update"
  shows "\<exists>db'. UpdatesAPI_post construct identity db plugin_id body = (Inr (PStr [], 200), db') \<and>
           objects_get db' plugin_id =
             Inr (plugin\<lparr>updates := updates plugin @ [plugin_update\<lparr>server_id := Some identity\<rparr>]\<rparr>) \<and>
           server_id (plugin_update\<lparr>server_id := Some identity\<rparr>) = Some identity \<and>
           (\<forall>q. ident q \<noteq> plugin_id \<longrightarrow> (q \<in> set db' \<longleftrightarrow> q \<in> set db))"
proof -
  let ?u = "plugin_update\<lparr>server_id := Some identity\<rparr>"
  let ?p = "plugin\<lparr>updates := updates plugin @ [?u]\<rparr>"
  have single: "objects_by_id db plugin_id = [plugin]"
    using assms(1) by (rule objects_get_single)
  then have "plugin \<in> set (filter (\<lambda>q. ident q = plugin_id) db)"
    by (simp add: objects_by_id_def)
  then have id: "ident ?p = plugin_id" by simp
  have post: "UpdatesAPI_post construct identity db plugin_id body = (Inr (PStr [], 200), save ?p db)"
    using assms by (simp add: UpdatesAPI_post_def Let_def)
  have "objects_by_id (save ?p db) plugin_id = [?p]"
    using single id by (rule objects_by_id_save)
  then have get: "objects_get (save ?p db) plugin_id = Inr ?p"
    by (simp add: objects_get_def)
  have others: "\<forall>q. ident q \<noteq> plugin_id \<longrightarrow> (q \<in> set (save ?p db) \<longleftrightarrow> q \<in> set db)"
    using id save_others[of _ ?p db] by auto
  show ?thesis using post get others by simp
qed

text \<open>
  The theorem at a plugin that already has an update, stored beside another
  plugin, and a body whose update comes with a server identifier of its own: the
  new update is the last of the two, under the caller's identity.
\<close>

theorem append_update_forces_server_id_witness:
  "UpdatesAPI_post (\<lambda>body. Inr \<lparr>server_id = Some ''forged'', details = body\<rparr>) ''server-1''
       [\<lparr>ident = 7, cls = Plugin_class, name = Some ''X'', description = Some ''Y'',
         download_url = Some ''Z'',
         updates = [\<lparr>server_id = Some ''server-0'', details = [(''version'', PStr ''1.0'')]\<rparr>],
         other_fields = []\<rparr>,
        \<lparr>ident = 9, cls = SpigotPlugin_class, name = Some ''P'', description = None,
         download_url = None, updates = [], other_fields = []\<rparr>] 7
       [(''version'', PStr ''1.1'')]
     = (Inr (PStr [], 200),
        [\<lparr>ident = 7, cls = Plugin_class, name = Some ''X'', description = Some ''Y'',
          download_url = Some ''Z'',
          updates = [\<lparr>server_id = Some ''server-0'', details = [(''version'', PStr ''1.0'')]\<rparr>,
                     \<lparr>server_id = Some ''server-1'', details = [(''version'', PStr ''1.1'')]\<rparr>],
          other_fields = []\<rparr>,
         \<lparr>ident = 9, cls = SpigotPlugin_class, name = Some ''P'', description = None,
          download_url = None, updates = [], other_fields = []\<rparr>])"
proof -
  let ?u0 = "\<lparr>server_id = Some ''server-0'', details = [(''version'', PStr ''1.0'')]\<rparr>"
  let ?p = "\<lparr>ident = 7, cls = Plugin_class, name = Some ''X'', description = Some ''Y'',
             download_url = Some ''Z'', updates = [?u0], other_fields = []\<rparr>"
  let ?q = "\<lparr>ident = 9, cls = SpigotPlugin_class, name = Some ''P'', description = None,
             download_url = None, updates = [], other_fields = []\<rparr>"
  let ?body = "[(''version'', PStr ''1.1'')]"
  let ?c = "\<lambda>body :: (string \<times> pyval) list. (Inr \<lparr>server_id = Some ''forged'', details = body\<rparr> :: exn + PluginUpdate)"
  let ?new = "\<lparr>server_id = Some ''forged'', details = ?body\<rparr>"
  have g: "objects_get [?p, ?q] 7 = Inr ?p"
    by (simp add: objects_get_def objects_by_id_def)
  have c: "?c ?body = Inr ?new" by simp
  from append_update_forces_server_id[of "[?p, ?q]" 7 ?p ?c ?body ?new "''server-1''", OF g c]
  obtain db' where
    post: "UpdatesAPI_post ?c ''server-1'' [?p, ?q] 7 ?body = (Inr (PStr [], 200), db')" and
    got: "objects_get db' 7 = Inr (?p\<lparr>updates := updates ?p @ [?new\<lparr>server_id := Some ''server-1''\<rparr>]\<rparr>)"
    by blast
  have "UpdatesAPI_post ?c ''server-1'' [?p, ?q] 7 ?body
      = (Inr (PStr [], 200),
         [?p\<lparr>updates := [?u0, \<lparr>server_id = Some ''server-1'', details = ?body\<rparr>]\<rparr>, ?q])"
    by (simp add: UpdatesAPI_post_def g save_def Let_def)
  then show ?thesis using post by simp
qed

text \<open>
  Claim C6. When a stored plugin has the name, description and download URL of
  the plugin built from the request, creation answers 400 and the collection is
  left as it was.
\<close>

theorem create_duplicate_rejected:
  assumes "construct (if type_is_spigot args \<or> ''spigot_name'' \<in> set (map fst body)
                      then SpigotPlugin_class else Plugin_class) body = Inr plugin"
    and "duplicates_of db plugin \<noteq> []"
  shows "PluginsAPI_post construct uuid4 identity db args body
           = (Inr (PDict [(''msg'', PStr ''Document already exists.'')], 400), db)"
proof (cases "type_is_spigot args \<or> ''spigot_name'' \<in> set (map fst body)")
  case True
  then have "construct SpigotPlugin_class body = Inr plugin" using assms(1) by simp
  then show ?thesis
    using True assms(2) by (simp add: PluginsAPI_post_def Let_def duplicates_of_fields)
next
  case False
  then have "construct Plugin_class body = Inr plugin" using assms(1) by simp
  then show ?thesis
    using False assms(2) by (simp add: PluginsAPI_post_def Let_def duplicates_of_fields)
qed

text \<open>The theorem at the second of two identical creations.\<close>

theorem create_duplicate_rejected_witness:
  "PluginsAPI_post example_construct 7 ''server-1'' [] []
       [(''name'', PStr ''X''), (''description'', PStr ''Y''), (''download_url'', PStr ''Z'')]
     = (Inr (PDict [(''id'', PStr ''00000000-0000-0000-0000-000000000007'')], 200),
        [\<lparr>ident = 7, cls = Plugin_class, name = Some ''X'', description = Some ''Y'',
          download_url = Some ''Z'', updates = [], other_fields = []\<rparr>]) \<and>
   PluginsAPI_post example_construct 8 ''server-1''
       [\<lparr>ident = 7, cls = Plugin_class, name = Some ''X'', description = Some ''Y'',
         download_url = Some ''Z'', updates = [], other_fields = []\<rparr>] []
       [(''name'', PStr ''X''), (''description'', PStr ''Y''), (''download_url'', PStr ''Z'')]
     = (Inr (PDict [(''msg'', PStr ''Document already exists.'')], 400),
        [\<lparr>ident = 7, cls = Plugin_class, name = Some ''X'', description = Some ''Y'',
          download_url = Some ''Z'', updates = [], other_fields = []\<rparr>])"
proof -
  let ?body = "[(''name'', PStr ''X''), (''description'', PStr ''Y''), (''download_url'', PStr ''Z'')]"
  let ?p = "\<lparr>ident = 7, cls = Plugin_class, name = Some ''X'', description = Some ''Y'',
             download_url = Some ''Z'', updates = [], other_fields = []\<rparr>"
  let ?new = "\<lparr>ident = 0, cls = Plugin_class, name = Some ''X'', description = Some ''Y'',
               download_url = Some ''Z'', updates = [], other_fields = []\<rparr>"
  have u: "uuid_str 7 = ''00000000-0000-0000-0000-000000000007''"
    by code_simp
  have c: "example_construct Plugin_class ?body = Inr ?new"
    by (simp add: example_construct_def str_field_def)
  have ns: "\<not> type_is_spigot []"
    by (simp add: type_is_spigot_def)
  have first: "PluginsAPI_post example_construct 7 ''server-1'' [] [] ?body
      = (Inr (PDict [(''id'', PStr ''00000000-0000-0000-0000-000000000007'')], 200), [?p])"
    by (simp add: PluginsAPI_post_def ns c Let_def duplicates_of_def save_def u)
  have c': "example_construct
              (if type_is_spigot [] \<or> ''spigot_name'' \<in> set (map fst ?body)
               then SpigotPlugin_class else Plugin_class) ?body = Inr ?new"
    using c ns by simp
  have d: "duplicates_of [?p] ?new \<noteq> []"
    by (simp add: duplicates_of_def)
  show ?thesis
    using first
      create_duplicate_rejected[of example_construct "[]" ?body ?new "[?p]" 8 "''server-1''",
        OF c' d]
    by simp
qed

text \<open>
  Claim C5. For an identifier that no stored plugin has, fetching, updating (with
  a body the mapper converts or rejects with \<open>ValueError\<close>), deleting and listing
  the updates answer 404. Appending an update does not: \<open>Plugin.objects.get\<close>
  raises \<open>DoesNotExist\<close>, nothing catches it, and the response is a 500.
\<close>

theorem unknown_plugin_id_responses:
  assumes "objects_by_id db plugin_id = []"
  shows "http_status (PluginAPI_get to_mongo db plugin_id) = 404 \<and>
         (convert body = Inl ValueError \<or> (\<exists>change. convert body = Inr change) \<longrightarrow>
            http_status (fst (PluginAPI_put convert db plugin_id body)) = 404) \<and>
         http_status (fst (PluginAPI_delete db plugin_id)) = 404 \<and>
         http_status (UpdatesAPI_get to_mongo db plugin_id) = 404 \<and>
         UpdatesAPI_post construct identity db plugin_id body' = (Inl DoesNotExist, db) \<and>
         http_status (fst (UpdatesAPI_post construct identity db plugin_id body')) = 500"
proof (intro conjI impI)
  show "http_status (PluginAPI_get to_mongo db plugin_id) = 404"
    using assms by (simp add: PluginAPI_get_def first_or_404_def)
next
  assume "convert body = Inl ValueError \<or> (\<exists>change. convert body = Inr change)"
  then show "http_status (fst (PluginAPI_put convert db plugin_id body)) = 404"
    using assms by (auto simp: PluginAPI_put_def objects_update_def not_found_def)
next
  show "http_status (fst (PluginAPI_delete db plugin_id)) = 404"
    using assms by (simp add: PluginAPI_delete_def objects_delete_def not_found_def)
next
  show "http_status (UpdatesAPI_get to_mongo db plugin_id) = 404"
    using assms by (simp add: UpdatesAPI_get_def get_or_404_def objects_get_def)
next
  show post: "UpdatesAPI_post construct identity db plugin_id body' = (Inl DoesNotExist, db)"
    using assms by (simp add: UpdatesAPI_post_def objects_get_def)
  show "http_status (fst (UpdatesAPI_post construct identity db plugin_id body')) = 500"
    by (simp add: post)
qed

text \<open>The theorem at the empty collection.\<close>

theorem unknown_plugin_id_responses_witness:
  "objects_by_id [] 9 = [] \<and>
   http_status (PluginAPI_get (\<lambda>p. []) [] 9) = 404 \<and>
   http_status (fst (PluginAPI_put (\<lambda>b. Inr (\<lambda>p. p)) [] 9 [(''name'', PStr ''n'')])) = 404 \<and>
   http_status (fst (PluginAPI_delete [] 9)) = 404 \<and>
   http_status (UpdatesAPI_get (\<lambda>p. []) [] 9) = 404 \<and>
   UpdatesAPI_post (\<lambda>b. Inr \<lparr>server_id = None, details = b\<rparr>) ''server-1'' [] 9 [(''version'', PStr ''2'')]
     = (Inl DoesNotExist, []) \<and>
   http_status (fst (UpdatesAPI_post (\<lambda>b. Inr \<lparr>server_id = None, details = b\<rparr>) ''server-1'' [] 9
                       [(''version'', PStr ''2'')])) = 500"
proof -
  have h: "objects_by_id [] 9 = []" by (simp add: objects_by_id_def)
  show ?thesis
    using h unknown_plugin_id_responses[OF h, of "\<lambda>p. []" "\<lambda>b. Inr (\<lambda>p. p)" "[(''name'', PStr ''n'')]"
        "\<lambda>b. Inr \<lparr>server_id = None, details = b\<rparr>" "''server-1''" "[(''version'', PStr ''2'')]"]
    by simp
qed

section \<open>Identifiers and timestamps\<close>

subsection \<open>Integer division as a float, below \<open>2 ^ 34\<close> seconds\<close>

lemma bit_length_pos: "0 < n \<Longrightarrow> bit_length n = Suc (bit_length (n div 2))"
  by (subst bit_length.simps) simp

lemma bit_length_nonpos: "n \<le> 0 \<Longrightarrow> bit_length n = 0"
  by (subst bit_length.simps) simp

lemma bit_length_upper: "n < 2 ^ bit_length n"
proof (induction n rule: bit_length.induct)
  case (1 n)
  show ?case
  proof (cases "n \<le> 0")
    case True
    then show ?thesis by (simp add: bit_length_nonpos)
  next
    case False
    then have "n div 2 < 2 ^ bit_length (n div 2)" using 1 by simp
    then have "n < 2 * 2 ^ bit_length (n div 2)" by linarith
    then show ?thesis using False by (simp add: bit_length_pos)
  qed
qed

lemma bit_length_lower: "0 < n \<Longrightarrow> 2 ^ (bit_length n - 1) \<le> n"
proof (induction n rule: bit_length.induct)
  case (1 n)
  show ?case
  proof (cases "n div 2 \<le> 0")
    case True
    then have "bit_length (n div 2) = 0" by (simp add: bit_length_nonpos)
    then show ?thesis using "1.prems" by (simp add: bit_length_pos)
  next
    case False
    then have pos: "0 < n div 2" by simp
    then have ih: "2 ^ (bit_length (n div 2) - 1) \<le> n div 2"
      using 1 by simp
    have "bit_length (n div 2) = Suc (bit_length (n div 2) - 1)"
      using pos by (simp add: bit_length_pos)
    then have "(2::int) ^ bit_length (n div 2) = 2 * 2 ^ (bit_length (n div 2) - 1)"
      by (metis power_Suc)
    then have "2 ^ bit_length (n div 2) \<le> n" using ih by linarith
    then show ?thesis using "1.prems" by (simp add: bit_length_pos)
  qed
qed

lemma float_exponent_lower:
  assumes "0 < n" "0 < d" "0 \<le> float_exponent n d"
  shows "d * 2 ^ nat (float_exponent n d) \<le> n"
proof -
  define e0 where "e0 = int (bit_length n) - int (bit_length d)"
  define test where "test = (if 0 \<le> e0 then d * 2 ^ nat e0 \<le> n else d \<le> n * 2 ^ nat (- e0))"
  have fe: "float_exponent n d = (if test then e0 else e0 - 1)"
    by (simp add: float_exponent_def e0_def test_def Let_def)
  show ?thesis
  proof (cases test)
    case True
    then have "float_exponent n d = e0" using fe by simp
    moreover from this have "0 \<le> e0" using assms(3) by simp
    ultimately show ?thesis using True by (simp add: test_def)
  next
    case False
    then have e: "float_exponent n d = e0 - 1" using fe by simp
    then have e0: "1 \<le> e0" using assms(3) by simp
    have bd: "0 < bit_length d"
      using assms(2) by (simp add: bit_length_pos)
    have eq: "bit_length n - 1 = bit_length d + nat (e0 - 1)"
      using e0 bd by (simp add: e0_def nat_diff_distrib)
    have "d * 2 ^ nat (e0 - 1) \<le> 2 ^ bit_length d * 2 ^ nat (e0 - 1)"
      using bit_length_upper[of d] by (simp add: mult_right_mono)
    also have "\<dots> = 2 ^ (bit_length n - 1)"
      by (simp only: eq power_add)
    also have "\<dots> \<le> n" using assms(1) by (rule bit_length_lower)
    finally show ?thesis by (simp add: e)
  qed
qed

lemma float_exponent_bound:
  assumes "0 < n" "0 < d" "n < 2 ^ k * d"
  shows "float_exponent n d < int k"
proof (rule ccontr)
  assume "\<not> float_exponent n d < int k"
  then have ge: "int k \<le> float_exponent n d" by simp
  then have nonneg: "0 \<le> float_exponent n d" by simp
  have "k \<le> nat (float_exponent n d)" using ge by simp
  then have "(2::int) ^ k \<le> 2 ^ nat (float_exponent n d)"
    by (simp add: power_increasing)
  then have "d * 2 ^ k \<le> d * 2 ^ nat (float_exponent n d)"
    using assms(2) by (simp add: mult_left_mono)
  also have "\<dots> \<le> n" using assms(1,2) nonneg by (rule float_exponent_lower)
  finally show False using assms(3) by (simp add: mult.commute)
qed

lemma round_half_even_cases:
  "round_half_even x d = x div d \<or>
   (round_half_even x d = x div d + 1 \<and> d \<le> 2 * (x mod d))"
  by (simp add: round_half_even_def Let_def)

lemma round_half_even_nonneg: "0 \<le> x \<Longrightarrow> 0 < d \<Longrightarrow> 0 \<le> round_half_even x d"
proof -
  assume a: "0 \<le> x" "0 < d"
  then have "0 \<le> x div d" by (simp add: pos_imp_zdiv_nonneg_iff)
  then show ?thesis using round_half_even_cases[of x d] by linarith
qed

lemma less_of_mult_less:
  fixes a b d :: int
  assumes "0 < d" "d * a < d * b"
  shows "a < b"
  using assms by (simp add: mult_less_cancel_left_pos)

lemma round_scaled_div:
  fixes n d P :: int
  assumes n: "0 \<le> n" and d: "0 < d" and P: "0 < P" and dP: "d < 2 * P"
  shows "round_half_even (n * P) d div P = n div d"
proof -
  define k where "k = n div d"
  define f where "f = n mod d"
  define q where "q = (n * P) div d"
  define r where "r = (n * P) mod d"
  define m where "m = round_half_even (n * P) d"
  have nk: "n = d * k + f" by (simp add: k_def f_def)
  have f: "0 \<le> f" "f \<le> d - 1" using d by (simp_all add: f_def)
  have xq: "n * P = d * q + r" by (simp add: q_def r_def)
  have r: "0 \<le> r" "r < d" using d by (simp_all add: r_def)
  define A where "A = d * (k * P)"
  define B where "B = f * P"
  define C where "C = d * P"
  define Q where "Q = d * q"
  have B0: "0 \<le> B" using f(1) P by (simp add: B_def)
  have B1: "B \<le> C - P"
  proof -
    have "f * P \<le> (d - 1) * P" using f(2) P by (simp add: mult_right_mono)
    then show ?thesis by (simp add: B_def C_def algebra_simps)
  qed
  have x1: "n * P = A + B" by (simp add: nk A_def B_def algebra_simps)
  have x3: "d * ((k + 1) * P) = A + C" by (simp add: A_def C_def algebra_simps)
  have x4: "d * (q + 1) = Q + d" by (simp add: Q_def algebra_simps)
  have xq': "n * P = Q + r" using xq by (simp add: Q_def)
  have QA: "A + B = Q + r" using x1 xq' by simp
  have lower: "k * P \<le> q"
  proof -
    have "A < Q + d" using QA B0 r(2) by linarith
    then have "d * (k * P) < d * (q + 1)" by (simp only: x4 A_def)
    then have "k * P < q + 1" using d by (rule less_of_mult_less[rotated])
    then show ?thesis by simp
  qed
  have upper: "Q + r \<le> A + C - P"
    using QA B1 by linarith
  have qM: "q < (k + 1) * P"
  proof -
    have "Q < A + C" using upper r(1) P by linarith
    then have "d * q < d * ((k + 1) * P)" by (simp only: x3 Q_def)
    then show ?thesis using d by (rule less_of_mult_less[rotated])
  qed
  have mcases: "m = q \<or> (m = q + 1 \<and> d \<le> 2 * r)"
    using round_half_even_cases[of "n * P" d] by (simp add: m_def q_def r_def)
  have mM: "m < (k + 1) * P"
  proof (cases "m = q")
    case True
    then show ?thesis using qM by simp
  next
    case False
    then have up: "m = q + 1" "d \<le> 2 * r" using mcases by simp_all
    have "q + 1 \<noteq> (k + 1) * P"
    proof
      assume e: "q + 1 = (k + 1) * P"
      have "d * (q + 1) = d * ((k + 1) * P)" by (simp only: e)
      then have "Q + d = A + C" by (simp only: x3 x4)
      then have "r \<le> d - P" using upper by linarith
      then show False using up(2) dP by linarith
    qed
    then show ?thesis using qM up(1) by linarith
  qed
  have mk: "k * P \<le> m" using lower mcases by linarith
  have "m div P = k"
  proof (rule int_div_pos_eq)
    show "m = P * k + (m - k * P)" by (simp add: algebra_simps)
    show "0 \<le> m - k * P" using mk by simp
    have "(k + 1) * P = k * P + P" by (simp add: algebra_simps)
    then show "m - k * P < P" using mM by linarith
  qed
  then show ?thesis by (simp add: m_def k_def)
qed

lemma truediv_trunc_exact:
  assumes "\<bar>a\<bar> < 2 ^ 34 * 1000000"
  shows "float_to_int (int_truediv a 1000000) = sgn a * (\<bar>a\<bar> div 1000000)"
proof (cases "a = 0")
  case True
  then show ?thesis by (simp add: int_truediv_def float_to_int_def)
next
  case False
  let ?e = "float_exponent \<bar>a\<bar> 1000000"
  have n: "0 < \<bar>a\<bar>" using False by simp
  have "?e < int 34"
    using n assms by (intro float_exponent_bound) simp_all
  then have e: "?e \<le> 33" by simp
  define P :: int where "P = 2 ^ nat (52 - ?e)"
  have "19 \<le> nat (52 - ?e)" using e by simp
  then have "(2::int) ^ 19 \<le> 2 ^ nat (52 - ?e)"
    by (intro power_increasing) simp_all
  then have P: "524288 \<le> P" by (simp add: P_def)
  have td: "int_truediv a 1000000 =
      \<lparr>negative = (a < 0), mantissa = round_half_even (\<bar>a\<bar> * P) 1000000, exponent = ?e - 52\<rparr>"
    using False e by (simp add: int_truediv_def Let_def P_def)
  have r: "round_half_even (\<bar>a\<bar> * P) 1000000 div P = \<bar>a\<bar> div 1000000"
    using P by (intro round_scaled_div) simp_all
  have ex: "\<not> 0 \<le> ?e - 52" "nat (- (?e - 52)) = nat (52 - ?e)" using e by simp_all
  have "float_to_int (int_truediv a 1000000)
          = (if a < 0 then - (\<bar>a\<bar> div 1000000) else \<bar>a\<bar> div 1000000)"
    unfolding td float_to_int_def Let_def
    by (simp only: pyfloat.simps ex if_False P_def[symmetric] r)
  then show ?thesis using False by (simp add: sgn_if)
qed

lemma float_to_int_nonneg: "\<not> negative x \<Longrightarrow> 0 \<le> mantissa x \<Longrightarrow> 0 \<le> float_to_int x"
  by (simp add: float_to_int_def Let_def pos_imp_zdiv_nonneg_iff)

lemma int_truediv_signs:
  "0 < a \<Longrightarrow> \<not> negative (int_truediv a 1000000) \<and> 0 \<le> mantissa (int_truediv a 1000000)"
  by (simp add: int_truediv_def Let_def round_half_even_nonneg)

lemma truediv_trunc_nonneg:
  assumes "0 \<le> a"
  shows "0 \<le> float_to_int (int_truediv a 1000000)"
proof (cases "a = 0")
  case True
  then show ?thesis by (simp add: int_truediv_def float_to_int_def)
next
  case False
  then have "0 < a" using assms by simp
  then show ?thesis using int_truediv_signs[of a] by (intro float_to_int_nonneg) simp_all
qed

subsection \<open>The calendar\<close>

lemma total_microseconds_new_timedelta:
  "total_microseconds (new_timedelta d s us) = (d * 86400 + s) * 1000000 + us"
proof -
  define s1 where "s1 = s + us div 1000000"
  have a: "s1 div 86400 * 86400 + s1 mod 86400 = s1" by simp
  have b: "us div 1000000 * 1000000 + us mod 1000000 = us" by simp
  have "total_microseconds (new_timedelta d s us)
          = ((d + s1 div 86400) * 86400 + s1 mod 86400) * 1000000 + us mod 1000000"
    by (simp add: total_microseconds_def new_timedelta_def Let_def s1_def)
  also have "\<dots> = (d * 86400 + (s1 div 86400 * 86400 + s1 mod 86400)) * 1000000 + us mod 1000000"
    by (simp only: algebra_simps)
  also have "\<dots> = (d * 86400 + s1) * 1000000 + us mod 1000000"
    by (simp only: a)
  also have "\<dots> = (d * 86400 + s) * 1000000 + (us div 1000000 * 1000000 + us mod 1000000)"
    by (simp add: s1_def algebra_simps)
  also have "\<dots> = (d * 86400 + s) * 1000000 + us"
    by (simp only: b)
  finally show ?thesis .
qed

lemma toordinal_EPOCH: "toordinal EPOCH = 719163"
  by (simp add: toordinal_def EPOCH_def ymd2ord_def days_before_year_def days_before_month_def
        DAYS_BEFORE_MONTH_def)

lemma microseconds_since_epoch:
  "total_microseconds (datetime_sub t EPOCH) =
     ((toordinal t - 719163) * 86400 + (second t + minute t * 60 + hour t * 3600)) * 1000000
       + microsecond t"
  by (simp add: datetime_sub_def Let_def total_microseconds_new_timedelta toordinal_EPOCH)
     (simp add: EPOCH_def)

lemma days_before_year_mono: "1970 \<le> y \<Longrightarrow> 719162 \<le> days_before_year y"
proof -
  assume y: "1970 \<le> y"
  define p where "p = y - 1"
  define a where "a = p div 4"
  define b where "b = p div 100"
  define c where "c = p div 400"
  have dby: "days_before_year y = p * 365 + a - b + c"
    by (simp add: days_before_year_def Let_def p_def a_def b_def c_def)
  have p: "1969 \<le> p" using y by (simp add: p_def)
  have a4: "p = 4 * a + p mod 4" by (simp add: a_def)
  have b100: "p = 100 * b + p mod 100" by (simp add: b_def)
  have c400: "p = 400 * c + p mod 400" by (simp add: c_def)
  have m4: "p mod 4 \<le> 3" by simp
  have m100: "0 \<le> p mod 100" by simp
  have m400: "p mod 400 \<le> 399" by simp
  show ?thesis
  proof (cases "p = 1969")
    case True
    then show ?thesis by (simp add: dby a_def b_def c_def)
  next
    case False
    then have "1970 \<le> p" using p by simp
    then show ?thesis using a4 b100 c400 m4 m100 m400 unfolding dby by linarith
  qed
qed

lemma days_before_month_nonneg: "1 \<le> m \<Longrightarrow> m \<le> 12 \<Longrightarrow> 0 \<le> days_before_month y m"
proof -
  assume "1 \<le> m" "m \<le> 12"
  then have "m = 1 \<or> m = 2 \<or> m = 3 \<or> m = 4 \<or> m = 5 \<or> m = 6 \<or> m = 7 \<or> m = 8 \<or>
      m = 9 \<or> m = 10 \<or> m = 11 \<or> m = 12" by arith
  then have "0 \<le> DAYS_BEFORE_MONTH ! nat m"
    by (auto simp: DAYS_BEFORE_MONTH_def)
  then show ?thesis by (simp add: days_before_month_def)
qed

lemma after_epoch_nonneg:
  assumes "valid_datetime t" "datetime_le EPOCH t"
  shows "0 \<le> total_microseconds (datetime_sub t EPOCH)"
proof -
  have y: "1970 \<le> year t"
    using assms(2) by (auto simp: datetime_le_def EPOCH_def)
  have v: "1 \<le> month t" "month t \<le> 12" "1 \<le> day t" "0 \<le> hour t" "0 \<le> minute t"
    "0 \<le> second t" "0 \<le> microsecond t"
    using assms(1) by (simp_all add: valid_datetime_def)
  have "719163 \<le> toordinal t"
    using days_before_year_mono[OF y] days_before_month_nonneg[OF v(1,2), of "year t"] v(3)
    by (simp add: toordinal_def ymd2ord_def)
  then have "0 \<le> (toordinal t - 719163) * 86400" by simp
  moreover have "0 \<le> second t + minute t * 60 + hour t * 3600" using v by simp
  ultimately have "0 \<le> ((toordinal t - 719163) * 86400 + (second t + minute t * 60 + hour t * 3600)) * 1000000"
    by simp
  then show ?thesis using v(7) by (simp only: microseconds_since_epoch)
qed

subsection \<open>The shape of \<open>str(uuid)\<close> and the range of the years 1970 to 2513\<close>

lemma hexdigit_is_hexdigit: "is_hexdigit (hexdigit n)"
proof -
  have "n mod 16 < length ''0123456789abcdef''" by simp
  then have "''0123456789abcdef'' ! (n mod 16) \<in> set ''0123456789abcdef''"
    by (rule nth_mem)
  then show ?thesis by (simp only: is_hexdigit_def hexdigit_def)
qed

lemma hex32_hexdigits: "list_all is_hexdigit (hex32 u)"
  by (simp add: hex32_def list_all_iff hexdigit_is_hexdigit)

lemma take_take_drop: "take n xs @ take m (drop n xs) = take (n + m) xs"
  by (simp add: take_add)

lemma uuid_groups:
  "take 8 h @ take 4 (drop 8 h) @ take 4 (drop 12 h) @ take 4 (drop 16 h) @ drop 20 h = h"
proof -
  have a: "take 4 (drop 16 h) @ drop 20 h = drop 16 h"
    using append_take_drop_id[of 4 "drop 16 h"] by simp
  have b: "take 4 (drop 12 h) @ drop 16 h = drop 12 h"
    using append_take_drop_id[of 4 "drop 12 h"] by simp
  have c: "take 4 (drop 8 h) @ drop 12 h = drop 8 h"
    using append_take_drop_id[of 4 "drop 8 h"] by simp
  show ?thesis by (simp only: a b c append_take_drop_id)
qed

lemma uuid_str_shape:
  "\<exists>g1 g2 g3 g4 g5.
      uuid_str u = g1 @ ''-'' @ g2 @ ''-'' @ g3 @ ''-'' @ g4 @ ''-'' @ g5 \<and>
      length g1 = 8 \<and> length g2 = 4 \<and> length g3 = 4 \<and> length g4 = 4 \<and> length g5 = 12 \<and>
      g1 @ g2 @ g3 @ g4 @ g5 = hex32 u"
proof (intro exI conjI)
  show "uuid_str u = take 8 (hex32 u) @ ''-'' @ take 4 (drop 8 (hex32 u)) @ ''-'' @
          take 4 (drop 12 (hex32 u)) @ ''-'' @ take 4 (drop 16 (hex32 u)) @ ''-'' @ drop 20 (hex32 u)"
    by (simp add: uuid_str_def Let_def)
  show "take 8 (hex32 u) @ take 4 (drop 8 (hex32 u)) @ take 4 (drop 12 (hex32 u)) @
          take 4 (drop 16 (hex32 u)) @ drop 20 (hex32 u) = hex32 u"
    by (rule uuid_groups)
qed (simp_all add: length_hex32)

lemma days_before_year_upper: "1 \<le> y \<Longrightarrow> y \<le> 2513 \<Longrightarrow> days_before_year y \<le> 917490"
proof -
  assume y: "1 \<le> y" "y \<le> 2513"
  define p where "p = y - 1"
  define a where "a = p div 4"
  define b where "b = p div 100"
  define c where "c = p div 400"
  have dby: "days_before_year y = p * 365 + a - b + c"
    by (simp add: days_before_year_def Let_def p_def a_def b_def c_def)
  have p: "0 \<le> p" "p \<le> 2512" using y by (simp_all add: p_def)
  have a4: "p = 4 * a + p mod 4" by (simp add: a_def)
  have b100: "p = 100 * b + p mod 100" by (simp add: b_def)
  have c400: "p = 400 * c + p mod 400" by (simp add: c_def)
  have m4: "0 \<le> p mod 4" by simp
  have m100: "p mod 100 \<le> 99" by simp
  have m400: "0 \<le> p mod 400" by simp
  show ?thesis using p a4 b100 c400 m4 m100 m400 unfolding dby by linarith
qed

lemma month_cases:
  "1 \<le> m \<Longrightarrow> m \<le> 12 \<Longrightarrow>
   m = 1 \<or> m = 2 \<or> m = 3 \<or> m = 4 \<or> m = 5 \<or> m = 6 \<or> m = 7 \<or> m = 8 \<or>
   m = 9 \<or> m = 10 \<or> m = 11 \<or> m = (12::int)"
  by arith

lemma days_before_month_upper: "1 \<le> m \<Longrightarrow> m \<le> 12 \<Longrightarrow> days_before_month y m \<le> 335"
proof -
  assume "1 \<le> m" "m \<le> 12"
  then have "DAYS_BEFORE_MONTH ! nat m \<le> 334"
    using month_cases[of m] by (auto simp: DAYS_BEFORE_MONTH_def)
  then show ?thesis by (simp add: days_before_month_def)
qed

lemma days_in_month_upper: "1 \<le> m \<Longrightarrow> m \<le> 12 \<Longrightarrow> days_in_month y m \<le> 31"
proof -
  assume "1 \<le> m" "m \<le> 12"
  then have "DAYS_IN_MONTH ! nat m \<le> 31"
    using month_cases[of m] by (auto simp: DAYS_IN_MONTH_def)
  then show ?thesis by (simp add: days_in_month_def)
qed

lemma years_1970_to_2513_in_range:
  assumes "valid_datetime t" "1970 \<le> year t" "year t \<le> 2513"
  shows "0 \<le> total_microseconds (datetime_sub t EPOCH)"
    and "total_microseconds (datetime_sub t EPOCH) < 2 ^ 34 * 1000000"
proof -
  have v: "1 \<le> month t" "month t \<le> 12" "1 \<le> day t" "day t \<le> days_in_month (year t) (month t)"
    "0 \<le> hour t" "hour t \<le> 23" "0 \<le> minute t" "minute t \<le> 59"
    "0 \<le> second t" "second t \<le> 59" "0 \<le> microsecond t" "microsecond t \<le> 999999"
    using assms(1) by (simp_all add: valid_datetime_def)
  have d31: "day t \<le> 31" using v(4) days_in_month_upper[OF v(1,2), of "year t"] by linarith
  have lo: "719163 \<le> toordinal t"
    using days_before_year_mono[OF assms(2)] days_before_month_nonneg[OF v(1,2), of "year t"] v(3)
    by (simp add: toordinal_def ymd2ord_def)
  have "1 \<le> year t" using assms(2) by simp
  then have hi: "toordinal t \<le> 917856"
    using days_before_year_upper[OF _ assms(3)] days_before_month_upper[OF v(1,2), of "year t"] d31
    by (simp add: toordinal_def ymd2ord_def)
  define secs where "secs = (toordinal t - 719163) * 86400 + (second t + minute t * 60 + hour t * 3600)"
  have s0: "0 \<le> secs" using lo v by (simp add: secs_def)
  have s1: "secs \<le> 17167161599" using hi v by (simp add: secs_def)
  have N: "total_microseconds (datetime_sub t EPOCH) = secs * 1000000 + microsecond t"
    by (simp add: microseconds_since_epoch secs_def)
  show "0 \<le> total_microseconds (datetime_sub t EPOCH)"
    using s0 v(11) by (simp add: N)
  show "total_microseconds (datetime_sub t EPOCH) < 2 ^ 34 * 1000000"
    using s1 v(12) by (simp add: N)
qed

lemma cleanup_timestamp_exact:
  "\<bar>total_microseconds (datetime_sub t EPOCH)\<bar> < 2 ^ 34 * 1000000 \<Longrightarrow>
   cleanup (PDatetime t) = PInt (whole_seconds_since_epoch t)"
  by (simp add: cleanup_PDatetime total_seconds_def whole_seconds_since_epoch_def Let_def
        truediv_trunc_exact)

text \<open>
  Claim C9.  \<open>_cleanup\<close> renders a UUID as the 36 characters of \<open>str(uuid)\<close>: the 32
  lowercase hexadecimal digits of its 128-bit value in groups of 8, 4, 4, 4 and 12,
  with a hyphen between two groups.  It renders a timestamp as the whole seconds
  between it and the epoch, truncated toward zero, whenever the two are less than
  \<open>2 ^ 34\<close> seconds apart, which holds for every valid timestamp of the years 1970 to
  2513; and as a non-negative integer for every valid timestamp at or after the
  epoch.  Further from the epoch the seconds are a float that no longer holds the
  microseconds, and the integer can be one more than the whole seconds.
\<close>

theorem uuid_and_timestamp_rendering:
  "(\<exists>g1 g2 g3 g4 g5.
      cleanup (PUUID u) = PStr (g1 @ ''-'' @ g2 @ ''-'' @ g3 @ ''-'' @ g4 @ ''-'' @ g5) \<and>
      length g1 = 8 \<and> length g2 = 4 \<and> length g3 = 4 \<and> length g4 = 4 \<and> length g5 = 12 \<and>
      g1 @ g2 @ g3 @ g4 @ g5 = hex32 u \<and> list_all is_hexdigit (hex32 u)) \<and>
   length (uuid_str u) = 36 \<and>
   (\<bar>total_microseconds (datetime_sub t EPOCH)\<bar> < 2 ^ 34 * 1000000 \<longrightarrow>
      cleanup (PDatetime t) = PInt (whole_seconds_since_epoch t)) \<and>
   (valid_datetime t \<and> 1970 \<le> year t \<and> year t \<le> 2513 \<longrightarrow>
      cleanup (PDatetime t) = PInt (whole_seconds_since_epoch t)) \<and>
   (valid_datetime t \<and> datetime_le EPOCH t \<longrightarrow>
      (\<exists>n. cleanup (PDatetime t) = PInt n \<and> 0 \<le> n))"
proof (intro conjI impI)
  show "\<exists>g1 g2 g3 g4 g5.
      cleanup (PUUID u) = PStr (g1 @ ''-'' @ g2 @ ''-'' @ g3 @ ''-'' @ g4 @ ''-'' @ g5) \<and>
      length g1 = 8 \<and> length g2 = 4 \<and> length g3 = 4 \<and> length g4 = 4 \<and> length g5 = 12 \<and>
      g1 @ g2 @ g3 @ g4 @ g5 = hex32 u \<and> list_all is_hexdigit (hex32 u)"
    using uuid_str_shape[of u] hex32_hexdigits[of u] by (simp only: cleanup_PUUID) blast
next
  show "length (uuid_str u) = 36" by (rule length_uuid_str)
next
  assume "\<bar>total_microseconds (datetime_sub t EPOCH)\<bar> < 2 ^ 34 * 1000000"
  then show "cleanup (PDatetime t) = PInt (whole_seconds_since_epoch t)"
    by (rule cleanup_timestamp_exact)
next
  assume a: "valid_datetime t \<and> 1970 \<le> year t \<and> year t \<le> 2513"
  then have "0 \<le> total_microseconds (datetime_sub t EPOCH)"
    and "total_microseconds (datetime_sub t EPOCH) < 2 ^ 34 * 1000000"
    using years_1970_to_2513_in_range[of t] by simp_all
  then have "\<bar>total_microseconds (datetime_sub t EPOCH)\<bar> < 2 ^ 34 * 1000000" by simp
  then show "cleanup (PDatetime t) = PInt (whole_seconds_since_epoch t)"
    by (rule cleanup_timestamp_exact)
next
  assume a: "valid_datetime t \<and> datetime_le EPOCH t"
  then have "0 \<le> total_microseconds (datetime_sub t EPOCH)"
    using after_epoch_nonneg[of t] by simp
  then have "0 \<le> float_to_int (total_seconds (datetime_sub t EPOCH))"
    unfolding total_seconds_def by (rule truediv_trunc_nonneg)
  then show "\<exists>n. cleanup (PDatetime t) = PInt n \<and> 0 \<le> n"
    by (simp add: cleanup_PDatetime)
qed

text \<open>
  The theorem at the identifier \<open>12345678-1234-5678-1234-567812345678\<close> and at
  2020-02-29 12:56:32.999999, which is 1582980992 whole seconds after the epoch.
\<close>

theorem uuid_and_timestamp_rendering_witness:
  "cleanup (PUUID 0x12345678123456781234567812345678)
     = PStr ''12345678-1234-5678-1234-567812345678'' \<and>
   length ''12345678-1234-5678-1234-567812345678'' = 36 \<and>
   valid_datetime \<lparr>year = 2020, month = 2, day = 29, hour = 12, minute = 56, second = 32,
                   microsecond = 999999\<rparr> \<and>
   datetime_le EPOCH \<lparr>year = 2020, month = 2, day = 29, hour = 12, minute = 56, second = 32,
                      microsecond = 999999\<rparr> \<and>
   \<bar>total_microseconds
      (datetime_sub \<lparr>year = 2020, month = 2, day = 29, hour = 12, minute = 56, second = 32,
                      microsecond = 999999\<rparr> EPOCH)\<bar> < 2 ^ 34 * 1000000 \<and>
   cleanup (PDatetime \<lparr>year = 2020, month = 2, day = 29, hour = 12, minute = 56, second = 32,
                       microsecond = 999999\<rparr>) = PInt 1582980992"
proof -
  let ?t = "\<lparr>year = 2020, month = 2, day = 29, hour = 12, minute = 56, second = 32,
             microsecond = 999999\<rparr>"
  let ?u = "0x12345678123456781234567812345678 :: 128 word"
  have v: "valid_datetime ?t" by code_simp
  have le: "datetime_le EPOCH ?t" by code_simp
  have b: "\<bar>total_microseconds (datetime_sub ?t EPOCH)\<bar> < 2 ^ 34 * 1000000" by code_simp
  have w: "whole_seconds_since_epoch ?t = 1582980992" by code_simp
  have s: "uuid_str ?u = ''12345678-1234-5678-1234-567812345678''" by code_simp
  show ?thesis
    using uuid_and_timestamp_rendering[of ?u ?t] v le b w s
    by (simp add: cleanup_PUUID)
qed

text \<open>
  3000-01-01 00:00:00.999999 is a valid timestamp 32503680000 whole seconds after the
  epoch; \<open>_cleanup\<close> renders it as 32503680001.
\<close>

theorem far_future_timestamp_rounds_up:
  "valid_datetime \<lparr>year = 3000, month = 1, day = 1, hour = 0, minute = 0, second = 0,
                   microsecond = 999999\<rparr> \<and>
   whole_seconds_since_epoch \<lparr>year = 3000, month = 1, day = 1, hour = 0, minute = 0, second = 0,
                              microsecond = 999999\<rparr> = 32503680000 \<and>
   cleanup (PDatetime \<lparr>year = 3000, month = 1, day = 1, hour = 0, minute = 0, second = 0,
                       microsecond = 999999\<rparr>) = PInt 32503680001"
proof -
  let ?t = "\<lparr>year = 3000, month = 1, day = 1, hour = 0, minute = 0, second = 0,
             microsecond = 999999\<rparr>"
  have v: "valid_datetime ?t" by code_simp
  have w: "whole_seconds_since_epoch ?t = 32503680000" by code_simp
  have f: "float_to_int (total_seconds (datetime_sub ?t EPOCH)) = 32503680001" by code_simp
  show ?thesis using v w f by (simp add: cleanup_PDatetime)
qed

end
